theory Spec2Isabelle
  imports Main "HOL-Library.Word"
begin

section \<open>Go runtime values: panics, results and buffered channels\<close>

text \<open>
  The package is Go. A call of the program can return, panic or block on a channel
  operation; all three are results of the model. The run-time panics the code can
  raise are the ones of channel operations, of a method call through a nil pointer
  or nil interface, and of \<^verbatim>\<open>make\<close> with a negative length.
\<close>

datatype panic =
    CloseOfNilChannel
  | CloseOfClosedChannel
  | SendOnClosedChannel
  | NilDereference
  | MakeSliceLenOutOfRange

datatype 'a res = Returns 'a | Panics panic | Blocks

text \<open>
  A channel \<^verbatim>\<open>make(chan T, n)\<close>: the queued values (oldest first), the capacity and
  whether \<^verbatim>\<open>close\<close> was called. Channels are objects shared between the listener,
  the routes a caller holds and the goroutines, so they live in a heap (a list, the
  index being the reference) and a channel-typed field holds \<open>Some i\<close>, or \<open>None\<close>
  for the nil channel. Go has no dangling references; an index beyond the heap is
  read like nil.
\<close>

record 'a chan =
  buf :: "'a list"
  capacity :: nat
  is_closed :: bool

definition make_chan :: "nat \<Rightarrow> 'a chan" where
  "make_chan n = \<lparr>buf = [], capacity = n, is_closed = False\<rparr>"

definition chan_at :: "'a chan list \<Rightarrow> nat option \<Rightarrow> 'a chan option" where
  "chan_at h r = (case r of None \<Rightarrow> None
                  | Some i \<Rightarrow> if i < length h then Some (h ! i) else None)"

text \<open>\<^verbatim>\<open>len(ch)\<close>: the number of queued values, 0 for the nil channel.\<close>

definition chan_len :: "'a chan list \<Rightarrow> nat option \<Rightarrow> nat" where
  "chan_len h r = (case chan_at h r of None \<Rightarrow> 0 | Some c \<Rightarrow> length (buf c))"

text \<open>\<^verbatim>\<open>close(ch)\<close> panics on the nil channel and on a closed channel.\<close>

definition chan_close :: "'a chan list \<Rightarrow> nat option \<Rightarrow> panic + 'a chan list" where
  "chan_close h r =
     (case r of
        None \<Rightarrow> Inl CloseOfNilChannel
      | Some i \<Rightarrow>
          (case chan_at h r of
             None \<Rightarrow> Inl CloseOfNilChannel
           | Some c \<Rightarrow> if is_closed c then Inl CloseOfClosedChannel
                       else Inr (h[i := c\<lparr>is_closed := True\<rparr>])))"

text \<open>
  \<^verbatim>\<open>v, ok := <-ch\<close>: a queued value is delivered first, also when the channel is
  closed; a closed and drained channel yields \<^verbatim>\<open>ok == false\<close> at once; an open
  empty channel and the nil channel block.
\<close>

datatype 'a recv = Received 'a | ReceivedClosed | RecvBlocks

definition chan_recv :: "'a chan list \<Rightarrow> nat option \<Rightarrow> 'a chan list \<times> 'a recv" where
  "chan_recv h r =
     (case r of
        None \<Rightarrow> (h, RecvBlocks)
      | Some i \<Rightarrow>
          (case chan_at h r of
             None \<Rightarrow> (h, RecvBlocks)
           | Some c \<Rightarrow>
               (case buf c of
                  x # xs \<Rightarrow> (h[i := c\<lparr>buf := xs\<rparr>], Received x)
                | [] \<Rightarrow> if is_closed c then (h, ReceivedClosed) else (h, RecvBlocks))))"

text \<open>
  \<^verbatim>\<open>ch <- v\<close>: panics on a closed channel, queues the value while there is room,
  blocks on a full channel and on the nil channel.
\<close>

definition chan_send :: "'a chan list \<Rightarrow> nat option \<Rightarrow> 'a \<Rightarrow> ('a chan list) res" where
  "chan_send h r v =
     (case r of
        None \<Rightarrow> Blocks
      | Some i \<Rightarrow>
          (case chan_at h r of
             None \<Rightarrow> Blocks
           | Some c \<Rightarrow>
               if is_closed c then Panics SendOnClosedChannel
               else if length (buf c) < capacity c
                 then Returns (h[i := c\<lparr>buf := buf c @ [v]\<rparr>])
               else Blocks))"

section \<open>The data of the package\<close>

type_synonym byte = "8 word"

text \<open>\<^verbatim>\<open>net.TCPAddr\<close>, the only \<^verbatim>\<open>net.Addr\<close> the listener stores.\<close>

record tcp_addr =
  IP :: "byte list"
  Zone :: string
  Port :: int

datatype sockaddr =
    SockaddrInet4 "byte list" int
  | SockaddrInet6 "byte list" int

text \<open>
  The errors of the package, one constructor for each \<^verbatim>\<open>fmt.Errorf\<close> of the source
  (a constructor with an \<open>error\<close> argument wraps the cause formatted by \<^verbatim>\<open>%s\<close>), and
  \<open>External\<close> for an error value made by the standard library or the kernel.
\<close>

datatype error =
    External string
  | BuilderWorkerSocket error
  | UseOfClosedNetworkConnection tcp_addr
  | ProtocolAfterStart
  | ProtocolAlreadyDeclared string
  | ProtocolNotSpecified string
  | SplitListenerAddress error
  | ParseListenerPort error
  | ResolveListenerAddress error
  | InvalidIPLength nat
  | GetSocketAddressForBind error
  | CreateSocket error
  | SetReuseAddr error
  | SetReusePort error
  | SetNonBlocking error
  | BindSocket error
  | ListenSocket error
  | ConvertFileDescriptor error
  | UseOfClosedSocket
  | ListenerAlreadyClosed

text \<open>Of \<^verbatim>\<open>tls.Config\<close> the package reads \<^verbatim>\<open>NextProtos\<close> only.\<close>

record tls_config =
  NextProtos :: "string list"

text \<open>
  \<^verbatim>\<open>Protocol\<close>: the \<^verbatim>\<open>parent\<close> pointer is the one listener of the world and is not
  stored; \<open>channel\<close> is the reference of a channel made by \<^verbatim>\<open>make(chan net.Conn, 1)\<close>.
\<close>

record Protocol =
  proto :: string
  channel :: nat

text \<open>
  \<^verbatim>\<open>worker\<close> (src/worker.go): \<open>socket\<close> is the reference of its TLS listener socket.
  The mutex is not a field of the model: every \<^verbatim>\<open>Lock() ... Unlock()\<close> section of
  worker.go is one indivisible step of the model.
\<close>

record worker =
  running :: bool
  socket :: nat

text \<open>
  \<^verbatim>\<open>Listener\<close>. \<open>workers\<close> is the slice of worker pointers (an entry \<open>None\<close> is a nil
  pointer; the nil slice is the empty list, the code only ever takes its length and
  ranges over it). \<open>channels\<close> is the map as an association list with the nil map
  as the empty list (reads, \<^verbatim>\<open>range\<close> and \<^verbatim>\<open>delete\<close> do not tell them apart, and
  the only write is preceded by \<^verbatim>\<open>make\<close>). \<open>TLSConfig\<close> is a pointer and may be nil.
  A connection is its identity, a natural number.
\<close>

record Listener =
  BindAddr :: string
  TLSConfig :: "tls_config option"
  Listeners :: int
  workers :: "nat option list"
  addr :: "tcp_addr option"
  sockAddr :: "sockaddr option"
  channels :: "(string \<times> Protocol) list"
  defaultChannel :: "nat option"
  errors :: "nat option"

text \<open>
  The world: the listener, the heaps of channels and workers, the sockets (closed or
  not), the connections on which \<^verbatim>\<open>Close\<close> was called, and the goroutines launched:
  \<open>accept_loops\<close> records each \<^verbatim>\<open>go worker.listen()\<close> by its worker and
  \<open>routing_tasks\<close> each \<^verbatim>\<open>go worker.parent.connectionReceived(conn)\<close> by its
  connection.
\<close>

record world =
  lis :: Listener
  conn_chans :: "nat chan list"
  err_chans :: "error chan list"
  worker_heap :: "worker list"
  sock_closed :: "bool list"
  conn_closed :: "nat list"
  accept_loops :: "nat list"
  routing_tasks :: "nat list"

text \<open>A listener as a caller builds it: the three exported fields set, the rest zero.\<close>

definition new_Listener :: "string \<Rightarrow> tls_config option \<Rightarrow> int \<Rightarrow> Listener" where
  "new_Listener b c n =
     \<lparr>BindAddr = b, TLSConfig = c, Listeners = n, workers = [], addr = None,
      sockAddr = None, channels = [], defaultChannel = None, errors = None\<rparr>"

definition new_world :: "Listener \<Rightarrow> world" where
  "new_world l =
     \<lparr>lis = l, conn_chans = [], err_chans = [], worker_heap = [], sock_closed = [],
      conn_closed = [], accept_loops = [], routing_tasks = []\<rparr>"

section \<open>worker.go, sequentially\<close>

text \<open>
  \<^verbatim>\<open>worker.isRunning\<close>, \<^verbatim>\<open>worker.start\<close> and \<^verbatim>\<open>worker.stop\<close> as one caller runs them.
  A worker reference is always one made by \<open>Listener_Start\<close>; a reference beyond the
  heap leaves the world as it is.
\<close>

definition worker_isRunning :: "world \<Rightarrow> nat \<Rightarrow> bool" where
  "worker_isRunning w i = (i < length (worker_heap w) \<and> running (worker_heap w ! i))"

definition worker_set_running :: "world \<Rightarrow> nat \<Rightarrow> world" where
  "worker_set_running w i =
     w\<lparr>worker_heap := (worker_heap w)[i := (worker_heap w ! i)\<lparr>running := True\<rparr>],
       accept_loops := accept_loops w @ [i]\<rparr>"

definition worker_start :: "world \<Rightarrow> nat \<Rightarrow> world" where
  "worker_start w i = (if worker_isRunning w i then w else worker_set_running w i)"

definition worker_stop :: "world \<Rightarrow> nat \<Rightarrow> world" where
  "worker_stop w i =
     (if i < length (worker_heap w)
      then w\<lparr>worker_heap := (worker_heap w)[i := (worker_heap w ! i)\<lparr>running := False\<rparr>],
             sock_closed := (sock_closed w)[socket (worker_heap w ! i) := True]\<rparr>
      else w)"

section \<open>Protocol routes\<close>

text \<open>
  \<^verbatim>\<open>Protocol.Accept\<close>: one receive on the route's channel; the result is the
  connection, the error, or that the call blocks.
\<close>

definition Protocol_Accept :: "world \<Rightarrow> Protocol \<Rightarrow> world \<times> (error + nat) res" where
  "Protocol_Accept w p =
     (case chan_recv (conn_chans w) (Some (channel p)) of
        (h, Received c) \<Rightarrow> (w\<lparr>conn_chans := h\<rparr>, Returns (Inr c))
      | (h, ReceivedClosed) \<Rightarrow> (w, Returns (Inl UseOfClosedSocket))
      | (h, RecvBlocks) \<Rightarrow> (w, Blocks))"

text \<open>
  \<^verbatim>\<open>Protocol.Close\<close>: when the registry has an entry under the route's name, close
  the route's channel and delete the entry; else the error. The result is the panic
  of \<^verbatim>\<open>close\<close>, or the returned error (\<open>None\<close> for nil).
\<close>

definition Protocol_Close :: "world \<Rightarrow> Protocol \<Rightarrow> world \<times> (panic + error option)" where
  "Protocol_Close w p =
     (case map_of (channels (lis w)) (proto p) of
        Some _ \<Rightarrow>
          (case chan_close (conn_chans w) (Some (channel p)) of
             Inl e \<Rightarrow> (w, Inl e)
           | Inr h \<Rightarrow>
               (w\<lparr>conn_chans := h,
                  lis := (lis w)\<lparr>channels := filter (\<lambda>kv. fst kv \<noteq> proto p) (channels (lis w))\<rparr>\<rparr>,
                Inr None))
      | None \<Rightarrow> (w, Inr (Some ListenerAlreadyClosed)))"

section \<open>Listener.Stop\<close>

text \<open>The first loop of \<^verbatim>\<open>Stop\<close>: every non-nil worker is stopped.\<close>

fun stop_workers :: "nat option list \<Rightarrow> world \<Rightarrow> world" where
  "stop_workers [] w = w"
| "stop_workers (None # ps) w = stop_workers ps w"
| "stop_workers (Some i # ps) w = stop_workers ps (worker_stop w i)"

text \<open>
  The second loop: \<^verbatim>\<open>range\<close> over the registry, calling \<^verbatim>\<open>Close\<close> on the entry of
  each key. \<^verbatim>\<open>Close\<close> deletes entries while the loop runs, and Go does not visit a
  key deleted before it is reached. The keys are taken in the order of the
  association list (Go's order is unspecified). The returned error of \<^verbatim>\<open>Close\<close> is
  dropped, a panic ends the loop.
\<close>

fun stop_routes :: "string list \<Rightarrow> world \<Rightarrow> world \<times> panic option" where
  "stop_routes [] w = (w, None)"
| "stop_routes (k # ks) w =
     (case map_of (channels (lis w)) k of
        None \<Rightarrow> stop_routes ks w
      | Some p \<Rightarrow>
          (case Protocol_Close w p of
             (w', Inl e) \<Rightarrow> (w', Some e)
           | (w', Inr _) \<Rightarrow> stop_routes ks w'))"

text \<open>
  The third step: a connection waiting in the default channel is received and closed.
\<close>

definition drain_default :: "world \<Rightarrow> world" where
  "drain_default w =
     (if chan_len (conn_chans w) (defaultChannel (lis w)) = 1
      then (case chan_recv (conn_chans w) (defaultChannel (lis w)) of
              (h, Received c) \<Rightarrow> w\<lparr>conn_chans := h, conn_closed := c # conn_closed w\<rparr>
            | _ \<Rightarrow> w)
      else w)"

text \<open>
  \<^verbatim>\<open>Listener.Stop\<close>. It returns nothing; the result is the world and the panic that
  ended the call, if one did.
\<close>

definition Listener_Stop :: "world \<Rightarrow> world \<times> panic option" where
  "Listener_Stop w =
     (let w1 = stop_workers (workers (lis w)) w in
      case stop_routes (map fst (channels (lis w1))) w1 of
        (w2, Some e) \<Rightarrow> (w2, Some e)
      | (w2, None) \<Rightarrow>
          (let w3 = drain_default w2 in
           case chan_close (conn_chans w3) (defaultChannel (lis w3)) of
             Inl e \<Rightarrow> (w3, Some e)
           | Inr h \<Rightarrow>
               (w3\<lparr>conn_chans := h,
                   lis := (lis w3)\<lparr>workers := [], channels := [], sockAddr := None\<rparr>\<rparr>,
                None)))"

text \<open>\<^verbatim>\<open>Listener.Close\<close> calls \<^verbatim>\<open>Stop\<close> and returns nil.\<close>

definition Listener_Close :: "world \<Rightarrow> world \<times> panic option" where
  "Listener_Close w = Listener_Stop w"

text \<open>\<^verbatim>\<open>Listener.Addr\<close>.\<close>

definition Listener_Addr :: "world \<Rightarrow> tcp_addr option" where
  "Listener_Addr w = addr (lis w)"

section \<open>Listener.Protocol\<close>

text \<open>
  \<^verbatim>\<open>protocolConfigured\<close>: the loop over \<^verbatim>\<open>TLSConfig.NextProtos\<close> that returns at the
  first equal entry. Reading the field through a nil \<^verbatim>\<open>TLSConfig\<close> panics.
\<close>

fun search_protos :: "string list \<Rightarrow> string \<Rightarrow> bool" where
  "search_protos [] name = False"
| "search_protos (x # xs) name = (if x = name then True else search_protos xs name)"

definition protocolConfigured :: "Listener \<Rightarrow> string \<Rightarrow> panic + bool" where
  "protocolConfigured l name =
     (case TLSConfig l of
        None \<Rightarrow> Inl NilDereference
      | Some c \<Rightarrow> Inr (search_protos (NextProtos c) name))"

text \<open>
  \<^verbatim>\<open>Listener.Protocol\<close>: the three checks in the order of the source, then the new
  route with a fresh channel of capacity 1 is stored under the name and returned.
\<close>

definition Listener_Protocol :: "world \<Rightarrow> string \<Rightarrow> world \<times> (panic + error + Protocol)" where
  "Listener_Protocol w name =
     (if length (workers (lis w)) > 0 then (w, Inr (Inl ProtocolAfterStart))
      else if map_of (channels (lis w)) name \<noteq> None
        then (w, Inr (Inl (ProtocolAlreadyDeclared name)))
      else
        (case protocolConfigured (lis w) name of
           Inl e \<Rightarrow> (w, Inl e)
         | Inr False \<Rightarrow> (w, Inr (Inl (ProtocolNotSpecified name)))
         | Inr True \<Rightarrow>
             (let p = \<lparr>proto = name, channel = length (conn_chans w)\<rparr> in
              (w\<lparr>conn_chans := conn_chans w @ [make_chan 1],
                 lis := (lis w)\<lparr>channels := (name, p) # channels (lis w)\<rparr>\<rparr>,
               Inr (Inr p)))))"

section \<open>Listener.Start\<close>

text \<open>
  What the operating system and the standard library answer is a parameter:
  \<^verbatim>\<open>net.SplitHostPort\<close>, \<^verbatim>\<open>strconv.ParseInt(port, 10, 16)\<close> and
  \<^verbatim>\<open>net.ResolveIPAddr("ip", host)\<close> (the IP and the zone) as functions of their
  argument, and, for each socket to build, the first of the system calls of
  \<^verbatim>\<open>buildSocket\<close> that fails with its error, if one does.
\<close>

record net_env =
  split_host_port :: "string \<Rightarrow> error + string \<times> string"
  parse_port :: "string \<Rightarrow> error + int"
  resolve_ip :: "string \<Rightarrow> error + byte list \<times> string"

datatype sys_step =
  SysSocket | SysReuseAddr | SysReusePort | SysNonblock | SysBind | SysListen | SysFileListener

fun sys_error :: "sys_step \<Rightarrow> error \<Rightarrow> error" where
  "sys_error SysSocket e = CreateSocket e"
| "sys_error SysReuseAddr e = SetReuseAddr e"
| "sys_error SysReusePort e = SetReusePort e"
| "sys_error SysNonblock e = SetNonBlocking e"
| "sys_error SysBind e = BindSocket e"
| "sys_error SysListen e = ListenSocket e"
| "sys_error SysFileListener e = ConvertFileDescriptor e"

text \<open>
  \<^verbatim>\<open>getSocketAddress\<close>: the cached socket address if there is one; else the bind
  address is split, parsed and resolved, and \<open>sockAddr\<close> and \<open>addr\<close> are stored. An
  IP of a length other than 4 or 16 is an error and stores nothing.
\<close>

definition getSocketAddress :: "net_env \<Rightarrow> Listener \<Rightarrow> Listener \<times> (error + sockaddr)" where
  "getSocketAddress env l =
     (case sockAddr l of
        Some sa \<Rightarrow> (l, Inr sa)
      | None \<Rightarrow>
          (case split_host_port env (BindAddr l) of
             Inl e \<Rightarrow> (l, Inl (SplitListenerAddress e))
           | Inr (host, port) \<Rightarrow>
               (case parse_port env port of
                  Inl e \<Rightarrow> (l, Inl (ParseListenerPort e))
                | Inr portInt \<Rightarrow>
                    (case resolve_ip env host of
                       Inl e \<Rightarrow> (l, Inl (ResolveListenerAddress e))
                     | Inr (ip, zone) \<Rightarrow>
                         (let a = \<lparr>IP = ip, Zone = zone, Port = portInt\<rparr> in
                          if length ip = 4
                            then (l\<lparr>sockAddr := Some (SockaddrInet4 ip portInt), addr := Some a\<rparr>,
                                  Inr (SockaddrInet4 ip portInt))
                          else if length ip = 16
                            then (l\<lparr>sockAddr := Some (SockaddrInet6 ip portInt), addr := Some a\<rparr>,
                                  Inr (SockaddrInet6 ip portInt))
                          else (l, Inl (InvalidIPLength (length ip))))))))"

text \<open>
  \<^verbatim>\<open>buildSocket\<close>: the socket address, then the system calls (the address family
  only selects their argument); on success a new open socket, wrapped by
  \<^verbatim>\<open>tls.NewListener\<close>, whose reference is returned.
\<close>

definition buildSocket ::
  "net_env \<Rightarrow> (sys_step \<times> error) option \<Rightarrow> world \<Rightarrow> world \<times> (error + nat)" where
  "buildSocket env failure w =
     (case getSocketAddress env (lis w) of
        (l, Inl e) \<Rightarrow> (w\<lparr>lis := l\<rparr>, Inl (GetSocketAddressForBind e))
      | (l, Inr sa) \<Rightarrow>
          (case failure of
             Some (st, e) \<Rightarrow> (w\<lparr>lis := l\<rparr>, Inl (sys_error st e))
           | None \<Rightarrow>
               (w\<lparr>lis := l, sock_closed := sock_closed w @ [False]\<rparr>,
                Inr (length (sock_closed w)))))"

text \<open>
  The loop of \<^verbatim>\<open>Start\<close> over the indices of the worker slice. A failed
  \<^verbatim>\<open>buildSocket\<close> calls \<^verbatim>\<open>Stop\<close> and returns the wrapped error; otherwise a new
  worker with the socket is stored at the index and started. The result is the panic
  that ended the call, or the returned error (\<open>None\<close> for nil).
\<close>

fun start_workers ::
  "net_env \<Rightarrow> (nat \<Rightarrow> (sys_step \<times> error) option) \<Rightarrow> nat list \<Rightarrow> world
     \<Rightarrow> world \<times> (panic + error option)" where
  "start_workers env failures [] w = (w, Inr None)"
| "start_workers env failures (i # js) w =
     (case buildSocket env (failures i) w of
        (w1, Inl e) \<Rightarrow>
          (case Listener_Stop w1 of
             (w2, Some p) \<Rightarrow> (w2, Inl p)
           | (w2, None) \<Rightarrow> (w2, Inr (Some (BuilderWorkerSocket e))))
      | (w1, Inr s) \<Rightarrow>
          (let wid = length (worker_heap w1);
               w2 = w1\<lparr>worker_heap := worker_heap w1 @ [\<lparr>running = False, socket = s\<rparr>],
                       lis := (lis w1)\<lparr>workers := (workers (lis w1))[i := Some wid]\<rparr>\<rparr>
           in start_workers env failures js (worker_start w2 wid)))"

text \<open>
  \<^verbatim>\<open>Listener.Start\<close>: a worker count of 0 becomes 1; the worker slice of that length
  (\<^verbatim>\<open>make\<close> panics on a negative length), the default channel and the error channel
  are made anew; then the loop.
\<close>

definition Listener_Start ::
  "net_env \<Rightarrow> (nat \<Rightarrow> (sys_step \<times> error) option) \<Rightarrow> world \<Rightarrow> world \<times> (panic + error option)" where
  "Listener_Start env failures w =
     (let n = (if Listeners (lis w) = 0 then 1 else Listeners (lis w));
          w0 = w\<lparr>lis := (lis w)\<lparr>Listeners := n\<rparr>\<rparr>
      in if n < 0 then (w0, Inl MakeSliceLenOutOfRange)
         else
           start_workers env failures [0..<nat n]
             (w0\<lparr>lis := (lis w0)\<lparr>workers := replicate (nat n) None,
                                   defaultChannel := Some (length (conn_chans w0)),
                                   errors := Some (length (err_chans w0))\<rparr>,
                 conn_chans := conn_chans w0 @ [make_chan 1],
                 err_chans := err_chans w0 @ [make_chan 1]\<rparr>))"

section \<open>Listener.Accept\<close>

text \<open>
  \<^verbatim>\<open>select\<close> waits until one of its two receives can proceed; when both can, the
  runtime picks one, and the pick is a parameter of the model. A receive can proceed
  when the channel holds a value or is closed.
\<close>

datatype select_pick = PickDefault | PickErrors

definition recv_ready :: "'a chan list \<Rightarrow> nat option \<Rightarrow> bool" where
  "recv_ready h r =
     (case chan_at h r of
        None \<Rightarrow> False
      | Some c \<Rightarrow> (case buf c of [] \<Rightarrow> is_closed c | x # xs \<Rightarrow> True))"

text \<open>
  The case of the default channel: the connection, or on a closed channel the error
  built from \<^verbatim>\<open>listener.addr.Network()\<close> and \<^verbatim>\<open>listener.addr.String()\<close>, which
  panics when \<open>addr\<close> is nil. A result is the pair of \<^verbatim>\<open>Accept\<close>: the connection and
  the error, \<open>None\<close> for nil.
\<close>

definition Accept_default :: "world \<Rightarrow> world \<times> (nat option \<times> error option) res" where
  "Accept_default w =
     (case chan_recv (conn_chans w) (defaultChannel (lis w)) of
        (h, Received c) \<Rightarrow> (w\<lparr>conn_chans := h\<rparr>, Returns (Some c, None))
      | (h, ReceivedClosed) \<Rightarrow>
          (case addr (lis w) of
             None \<Rightarrow> (w, Panics NilDereference)
           | Some a \<Rightarrow> (w, Returns (None, Some (UseOfClosedNetworkConnection a))))
      | (h, RecvBlocks) \<Rightarrow> (w, Blocks))"

text \<open>The case of the error channel: \<^verbatim>\<open>err := <-listener.errors\<close>, returned as it is.\<close>

definition Accept_errors :: "world \<Rightarrow> world \<times> (nat option \<times> error option) res" where
  "Accept_errors w =
     (case chan_recv (err_chans w) (errors (lis w)) of
        (h, Received e) \<Rightarrow> (w\<lparr>err_chans := h\<rparr>, Returns (None, Some e))
      | (h, ReceivedClosed) \<Rightarrow> (w, Returns (None, None))
      | (h, RecvBlocks) \<Rightarrow> (w, Blocks))"

definition Listener_Accept ::
  "select_pick \<Rightarrow> world \<Rightarrow> world \<times> (nat option \<times> error option) res" where
  "Listener_Accept pick w =
     (let d = recv_ready (conn_chans w) (defaultChannel (lis w));
          e = recv_ready (err_chans w) (errors (lis w))
      in if d \<and> e then (case pick of PickDefault \<Rightarrow> Accept_default w
                                     | PickErrors \<Rightarrow> Accept_errors w)
         else if d then Accept_default w
         else if e then Accept_errors w
         else (w, Blocks))"

section \<open>Listener.connectionReceived\<close>

text \<open>
  The outcome of \<^verbatim>\<open>tlsConn.Handshake()\<close> is a parameter: the error, or the
  \<^verbatim>\<open>NegotiatedProtocol\<close> and \<^verbatim>\<open>NegotiatedProtocolIsMutual\<close> of the connection state.
  Every connection a worker accepts comes from a \<^verbatim>\<open>tls.NewListener\<close> socket, so the
  type assertion to \<^verbatim>\<open>*tls.Conn\<close> holds.
\<close>

datatype handshake = HandshakeFails error | HandshakeDone string bool

definition connectionReceived :: "world \<Rightarrow> nat \<Rightarrow> handshake \<Rightarrow> world \<times> unit res" where
  "connectionReceived w conn hs =
     (case hs of
        HandshakeFails e \<Rightarrow> (w\<lparr>conn_closed := conn # conn_closed w\<rparr>, Returns ())
      | HandshakeDone name mutual \<Rightarrow>
          (let target =
                 (case map_of (channels (lis w)) name of
                    Some p \<Rightarrow> if mutual then Some (channel p) else defaultChannel (lis w)
                  | None \<Rightarrow> defaultChannel (lis w))
           in case chan_send (conn_chans w) target conn of
                Returns h \<Rightarrow> (w\<lparr>conn_chans := h\<rparr>, Returns ())
              | Panics e \<Rightarrow> (w, Panics e)
              | Blocks \<Rightarrow> (w, Blocks)))"

section \<open>worker.go, step by step\<close>

text \<open>
  Goroutines interleave between the critical sections of the worker's mutex and
  between channel and socket operations; each of these is one step.

  \<^verbatim>\<open>worker.start\<close> is two steps: the call of \<^verbatim>\<open>isRunning\<close> (which locks, reads and
  unlocks), and the section that locks, sets \<open>running\<close>, launches \<^verbatim>\<open>listen\<close> and
  unlocks.
\<close>

datatype start_pc = StartCheck | StartSet | StartReturned

definition start_step :: "world \<Rightarrow> nat \<Rightarrow> start_pc \<Rightarrow> world \<times> start_pc" where
  "start_step w i pc =
     (case pc of
        StartCheck \<Rightarrow> (w, if worker_isRunning w i then StartReturned else StartSet)
      | StartSet \<Rightarrow> (worker_set_running w i, StartReturned)
      | StartReturned \<Rightarrow> (w, StartReturned))"

text \<open>
  Two goroutines calling \<^verbatim>\<open>start\<close> on the same worker, under a schedule: \<open>False\<close>
  lets the first caller take a step, \<open>True\<close> the second.
\<close>

fun run_starts ::
  "bool list \<Rightarrow> nat \<Rightarrow> world \<times> start_pc \<times> start_pc \<Rightarrow> world \<times> start_pc \<times> start_pc" where
  "run_starts [] i cfg = cfg"
| "run_starts (False # s) i (w, a, b) =
     (case start_step w i a of (w', a') \<Rightarrow> run_starts s i (w', a', b))"
| "run_starts (True # s) i (w, a, b) =
     (case start_step w i b of (w', b') \<Rightarrow> run_starts s i (w', a, b'))"

text \<open>
  \<^verbatim>\<open>worker.listen\<close>: the test of the loop (\<^verbatim>\<open>isRunning\<close>), the call of
  \<^verbatim>\<open>socket.Accept\<close>, and the send of an accept error to \<^verbatim>\<open>worker.parent.errors\<close>.
  \<^verbatim>\<open>Accept\<close> on a closed socket returns the error of the net package at once; on an
  open socket it returns what the network brings: a connection (handed to a new
  \<^verbatim>\<open>connectionReceived\<close> goroutine), an error, or nothing yet.
\<close>

datatype accept_event = Incoming nat | AcceptError error | NoEvent

datatype listen_pc =
  ListenCheck | ListenAccept | ListenForward error | ListenReturned | ListenPanicked panic

definition closed_socket_error :: error where
  "closed_socket_error = External ''use of closed network connection''"

definition socket_is_closed :: "world \<Rightarrow> nat \<Rightarrow> bool" where
  "socket_is_closed w i =
     (i < length (worker_heap w) \<and> socket (worker_heap w ! i) < length (sock_closed w)
      \<and> sock_closed w ! socket (worker_heap w ! i))"

definition listen_step :: "world \<Rightarrow> nat \<Rightarrow> accept_event \<Rightarrow> listen_pc \<Rightarrow> world \<times> listen_pc" where
  "listen_step w i ev pc =
     (case pc of
        ListenCheck \<Rightarrow> (w, if worker_isRunning w i then ListenAccept else ListenReturned)
      | ListenAccept \<Rightarrow>
          (if socket_is_closed w i then (w, ListenForward closed_socket_error)
           else
             (case ev of
                Incoming c \<Rightarrow> (w\<lparr>routing_tasks := routing_tasks w @ [c]\<rparr>, ListenCheck)
              | AcceptError e \<Rightarrow> (w, ListenForward e)
              | NoEvent \<Rightarrow> (w, ListenAccept)))
      | ListenForward e \<Rightarrow>
          (case chan_send (err_chans w) (errors (lis w)) e of
             Returns h \<Rightarrow> (w\<lparr>err_chans := h\<rparr>, ListenCheck)
           | Panics p \<Rightarrow> (w, ListenPanicked p)
           | Blocks \<Rightarrow> (w, ListenForward e))
      | ListenReturned \<Rightarrow> (w, ListenReturned)
      | ListenPanicked p \<Rightarrow> (w, ListenPanicked p))"

text \<open>The accept loop of worker \<open>i\<close> run for one step per event of the list.\<close>

fun run_listen :: "accept_event list \<Rightarrow> nat \<Rightarrow> world \<times> listen_pc \<Rightarrow> world \<times> listen_pc" where
  "run_listen [] i cfg = cfg"
| "run_listen (ev # evs) i (w, pc) = run_listen evs i (listen_step w i ev pc)"

section \<open>The listener of listener\_test.go\<close>

text \<open>
  The test suite's listener: bind address 127.0.0.1:6080, \<^verbatim>\<open>NextProtos = ["h2"]\<close>,
  worker count 0; a network that resolves the address to the 16-byte form of
  127.0.0.1 and lets every system call succeed.
\<close>

definition test_config :: tls_config where
  "test_config = \<lparr>NextProtos = [''h2'']\<rparr>"

definition test_ip :: "byte list" where
  "test_ip = [0, 0, 0, 0, 0, 0, 0, 0, 0, 0, 0xFF, 0xFF, 0x7F, 0, 0, 1]"

definition test_env :: net_env where
  "test_env =
     \<lparr>split_host_port = (\<lambda>s. Inr (''127.0.0.1'', ''6080'')),
      parse_port = (\<lambda>s. Inr 6080),
      resolve_ip = (\<lambda>s. Inr (test_ip, ''''))\<rparr>"

definition no_failures :: "nat \<Rightarrow> (sys_step \<times> error) option" where
  "no_failures i = None"

definition test_world :: world where
  "test_world = new_world (new_Listener ''127.0.0.1:6080'' (Some test_config) 0)"

text \<open>The test suite's run: the route "h2" is registered, the listener started, then stopped.\<close>

definition registered_world :: world where
  "registered_world = fst (Listener_Protocol test_world ''h2'')"

definition started_world :: world where
  "started_world = fst (Listener_Start test_env no_failures registered_world)"

definition stopped_world :: world where
  "stopped_world = fst (Listener_Stop started_world)"

text \<open>
  The route handle the test keeps, and the run in which a connection that negotiated
  "h2" is routed before the listener is stopped.
\<close>

definition h2_route :: Protocol where
  "h2_route = \<lparr>proto = ''h2'', channel = 0\<rparr>"

definition routed_world :: world where
  "routed_world = fst (connectionReceived started_world 7 (HandshakeDone ''h2'' True))"

text \<open>
  The world inside \<^verbatim>\<open>Start\<close> of the test suite's run, after the worker is stored and
  before \<^verbatim>\<open>listener.workers[i].start()\<close>: the worker is idle, no accept loop runs.
\<close>

definition idle_world :: world where
  "idle_world =
     started_world\<lparr>worker_heap := [\<lparr>running = False, socket = 0\<rparr>], accept_loops := []\<rparr>"

text \<open>
  The test suite's listener asked for three workers, on a network where the second
  socket cannot be bound.
\<close>

definition three_workers_world :: world where
  "three_workers_world = registered_world\<lparr>lis := (lis registered_world)\<lparr>Listeners := 3\<rparr>\<rparr>"

definition second_bind_fails :: "nat \<Rightarrow> (sys_step \<times> error) option" where
  "second_bind_fails i = (if i = 1 then Some (SysBind, External ''address already in use'') else None)"

text \<open>
  The run in which an accept of the worker fails with an error of the kernel, the
  accept loop forwards it, and the listener is stopped before anyone has read it.
\<close>

definition too_many_files :: error where
  "too_many_files = External ''accept4: too many open files''"

definition pending_error_world :: world where
  "pending_error_world =
     fst (Listener_Stop
            (fst (run_listen [AcceptError too_many_files, NoEvent] 0
                    (started_world, ListenAccept))))"

text \<open>
  A listener whose bind address has no port, so that \<^verbatim>\<open>net.SplitHostPort\<close> fails, and
  the world its \<^verbatim>\<open>Start\<close> leaves.
\<close>

definition portless_env :: net_env where
  "portless_env =
     \<lparr>split_host_port = (\<lambda>s. Inl (External ''missing port in address'')),
      parse_port = (\<lambda>s. Inr 6080),
      resolve_ip = (\<lambda>s. Inr (test_ip, ''''))\<rparr>"

definition portless_world :: world where
  "portless_world = new_world (new_Listener ''127.0.0.1'' (Some test_config) 0)"

definition failed_start_world :: world where
  "failed_start_world = fst (Listener_Start portless_env no_failures portless_world)"

section \<open>Predicates of the statements\<close>

text \<open>A connection waits in the queue of the channel with reference \<open>q\<close>.\<close>

definition queued :: "world \<Rightarrow> nat \<Rightarrow> nat \<Rightarrow> bool" where
  "queued w q conn = (q < length (conn_chans w) \<and> conn \<in> set (buf (conn_chans w ! q)))"

text \<open>A send on the channel completes at once: it is open and has a free slot.\<close>

definition can_take :: "'a chan list \<Rightarrow> nat option \<Rightarrow> bool" where
  "can_take h r =
     (case chan_at h r of
        None \<Rightarrow> False
      | Some c \<Rightarrow> \<not> is_closed c \<and> length (buf c) < capacity c)"

text \<open>
  The fields of the listener that \<^verbatim>\<open>Stop\<close> does not assign: all but \<open>workers\<close>,
  \<open>channels\<close> and \<open>sockAddr\<close>.
\<close>

definition kept_fields :: "Listener \<Rightarrow> Listener \<Rightarrow> bool" where
  "kept_fields l l' =
     (BindAddr l' = BindAddr l \<and> TLSConfig l' = TLSConfig l \<and> Listeners l' = Listeners l
      \<and> addr l' = addr l \<and> defaultChannel l' = defaultChannel l \<and> errors l' = errors l)"

text \<open>
  The registry as the package keeps it: every route stored under its own name, with a
  channel of its own that is open. (\<^verbatim>\<open>Protocol\<close> stores a route with a new channel;
  \<^verbatim>\<open>Close\<close> and \<^verbatim>\<open>Stop\<close> close a channel only together with deleting the entry.)
\<close>

definition route_open :: "world \<Rightarrow> Protocol \<Rightarrow> bool" where
  "route_open w p =
     (case chan_at (conn_chans w) (Some (channel p)) of
        None \<Rightarrow> False
      | Some c \<Rightarrow> \<not> is_closed c)"

definition routes_ok :: "world \<Rightarrow> bool" where
  "routes_ok w =
     (distinct (map (\<lambda>kv. channel (snd kv)) (channels (lis w)))
      \<and> list_all (\<lambda>kv. proto (snd kv) = fst kv \<and> route_open w (snd kv)) (channels (lis w)))"

text \<open>
  A worker that is not left running: its flag is false and its socket closed. A valid
  worker reference: the worker and its socket exist.
\<close>

definition worker_stopped :: "world \<Rightarrow> nat \<Rightarrow> bool" where
  "worker_stopped w j = (j < length (worker_heap w) \<and> \<not> running (worker_heap w ! j) \<and> socket_is_closed w j)"

definition worker_valid :: "world \<Rightarrow> nat \<Rightarrow> bool" where
  "worker_valid w j = (j < length (worker_heap w) \<and> socket (worker_heap w ! j) < length (sock_closed w))"

text \<open>
  The default queue is an open channel that no route uses; the default queue is closed.
\<close>

definition default_open :: "world \<Rightarrow> bool" where
  "default_open w =
     (case defaultChannel (lis w) of
        None \<Rightarrow> False
      | Some d \<Rightarrow>
          (case chan_at (conn_chans w) (Some d) of
             None \<Rightarrow> False
           | Some c \<Rightarrow> \<not> is_closed c \<and> d \<notin> (\<lambda>kv. channel (snd kv)) ` set (channels (lis w))))"

definition default_closed :: "world \<Rightarrow> bool" where
  "default_closed w =
     (case chan_at (conn_chans w) (defaultChannel (lis w)) of
        None \<Rightarrow> False
      | Some c \<Rightarrow> is_closed c)"

text \<open>
  The invariant of the loop of \<^verbatim>\<open>Start\<close>, \<open>js\<close> being the indices still to come: every
  worker made since the call began (those from \<open>base\<close> on in the heap) is valid and
  is stored in the worker slice at an index the loop has passed.
\<close>

definition loop_inv :: "nat \<Rightarrow> nat list \<Rightarrow> world \<Rightarrow> bool" where
  "loop_inv base js w =
     (\<forall>j. base \<le> j \<and> j < length (worker_heap w) \<longrightarrow>
        worker_valid w j
        \<and> (\<exists>pos. pos < length (workers (lis w)) \<and> pos \<notin> set js
              \<and> workers (lis w) ! pos = Some j))"

section \<open>Stop on a listener that is not running\<close>

text \<open>
  C1. The claim: calling Stop on a listener that is not running (never started, or
  already stopped) does not fail and does not panic; calling Stop twice is safe.
  The code: \<^verbatim>\<open>Stop\<close> calls \<^verbatim>\<open>close(listener.defaultChannel)\<close> with no guard. On a
  listener that was never started the channel is nil, and the call panics with
  "close of nil channel", whatever the bind address, configuration and worker count.
  On the started listener of the test suite the first Stop returns, and the second
  Stop panics with "close of closed channel".
\<close>

theorem Stop_not_running_panics:
  "snd (Listener_Stop (new_world (new_Listener b c n))) = Some CloseOfNilChannel
   \<and> snd (Listener_Stop started_world) = None
   \<and> snd (Listener_Stop stopped_world) = Some CloseOfClosedChannel"
proof -
  have never_started:
    "snd (Listener_Stop (new_world (new_Listener b c n))) = Some CloseOfNilChannel"
    by (simp add: Listener_Stop_def new_world_def new_Listener_def drain_default_def
          chan_len_def chan_at_def chan_close_def)
  have first: "snd (Listener_Stop started_world) = None"
    by code_simp
  have second: "snd (Listener_Stop stopped_world) = Some CloseOfClosedChannel"
    by code_simp
  from never_started first second show ?thesis by simp
qed

section \<open>Registering a route\<close>

lemma search_protos_set: "search_protos xs name \<longleftrightarrow> name \<in> set xs"
  by (induction xs) auto

text \<open>
  C2. For a listener with a TLS configuration, \<^verbatim>\<open>Protocol(name)\<close> returns an error
  exactly when workers exist, or the name is registered, or the name is not in
  \<^verbatim>\<open>NextProtos\<close>; when it returns an error the world is unchanged; otherwise it
  returns a route of that name, stored in the registry under the name, whose channel
  is a new one, open and empty.
\<close>

theorem Protocol_registration:
  assumes cfg: "TLSConfig (lis w) = Some cfg"
  shows "((\<exists>e. snd (Listener_Protocol w name) = Inr (Inl e)) \<longleftrightarrow>
            (workers (lis w) \<noteq> [] \<or> map_of (channels (lis w)) name \<noteq> None
              \<or> name \<notin> set (NextProtos cfg)))
       \<and> ((\<exists>e. snd (Listener_Protocol w name) = Inr (Inl e)) \<longrightarrow>
            fst (Listener_Protocol w name) = w)
       \<and> ((\<forall>e. snd (Listener_Protocol w name) \<noteq> Inr (Inl e)) \<longrightarrow>
            (\<exists>p. snd (Listener_Protocol w name) = Inr (Inr p)
               \<and> proto p = name
               \<and> map_of (channels (lis (fst (Listener_Protocol w name))))
                   = (map_of (channels (lis w)))(name \<mapsto> p)
               \<and> channel p = length (conn_chans w)
               \<and> conn_chans (fst (Listener_Protocol w name)) = conn_chans w @ [make_chan 1]
               \<and> chan_len (conn_chans (fst (Listener_Protocol w name))) (Some (channel p)) = 0))"
  using cfg
  by (auto simp: Listener_Protocol_def protocolConfigured_def search_protos_set Let_def
        chan_len_def chan_at_def make_chan_def split: bool.splits sum.splits)

theorem Protocol_registration_witness:
  "TLSConfig (lis test_world) = Some test_config
   \<and> (\<exists>e. snd (Listener_Protocol test_world ''h3'') = Inr (Inl e))
   \<and> fst (Listener_Protocol test_world ''h3'') = test_world
   \<and> (\<exists>p. snd (Listener_Protocol test_world ''h2'') = Inr (Inr p) \<and> proto p = ''h2'')"
proof -
  have cfg: "TLSConfig (lis test_world) = Some test_config"
    by (simp add: test_world_def new_world_def new_Listener_def)
  have facts: "workers (lis test_world) = []" "map_of (channels (lis test_world)) k = None"
    "NextProtos test_config = [''h2'']" for k
    by (simp_all add: test_world_def new_world_def new_Listener_def test_config_def)
  show ?thesis
    using Protocol_registration[OF cfg, of "''h3''"] Protocol_registration[OF cfg, of "''h2''"]
      cfg facts
    by auto
qed

text \<open>
  Without a TLS configuration the third check dereferences the nil pointer: the call
  panics instead of returning an error.
\<close>

lemma Protocol_without_config:
  assumes "TLSConfig (lis w) = None" and "workers (lis w) = []"
    and "map_of (channels (lis w)) name = None"
  shows "Listener_Protocol w name = (w, Inl NilDereference)"
  using assms by (simp add: Listener_Protocol_def protocolConfigured_def)

section \<open>The routing decision\<close>

text \<open>
  C5. When the handshake of an accepted connection fails, \<^verbatim>\<open>connectionReceived\<close>
  closes the connection and returns: no channel of connections (the default queue
  and the queues of the routes) and no channel of errors changes, and the listener
  is as before.
\<close>

theorem failed_handshake_dropped:
  "snd (connectionReceived w conn (HandshakeFails e)) = Returns ()
   \<and> conn \<in> set (conn_closed (fst (connectionReceived w conn (HandshakeFails e))))
   \<and> conn_chans (fst (connectionReceived w conn (HandshakeFails e))) = conn_chans w
   \<and> err_chans (fst (connectionReceived w conn (HandshakeFails e))) = err_chans w
   \<and> lis (fst (connectionReceived w conn (HandshakeFails e))) = lis w"
  by (simp add: connectionReceived_def)

lemma started_world_eq:
  "started_world =
     \<lparr>lis = \<lparr>BindAddr = ''127.0.0.1:6080'', TLSConfig = Some \<lparr>NextProtos = [''h2'']\<rparr>,
             Listeners = 1, workers = [Some 0],
             addr = Some \<lparr>IP = test_ip, Zone = [], Port = 6080\<rparr>,
             sockAddr = Some (SockaddrInet6 test_ip 6080),
             channels = [(''h2'', \<lparr>proto = ''h2'', channel = 0\<rparr>)],
             defaultChannel = Some 1, errors = Some 0\<rparr>,
      conn_chans = [make_chan 1, make_chan 1],
      err_chans = [make_chan 1],
      worker_heap = [\<lparr>running = True, socket = 0\<rparr>], sock_closed = [False],
      conn_closed = [], accept_loops = [0], routing_tasks = []\<rparr>"
  by code_simp

section \<open>What Stop leaves as it is\<close>

lemma kept_fields_refl [simp]: "kept_fields l l"
  by (simp add: kept_fields_def)

lemma kept_fields_trans: "kept_fields a b \<Longrightarrow> kept_fields b c \<Longrightarrow> kept_fields a c"
  by (simp add: kept_fields_def)

lemma worker_stop_frame [simp]:
  "lis (worker_stop w i) = lis w" "conn_chans (worker_stop w i) = conn_chans w"
  "err_chans (worker_stop w i) = err_chans w" "conn_closed (worker_stop w i) = conn_closed w"
  by (simp_all add: worker_stop_def)

lemma stop_workers_frame [simp]:
  "lis (stop_workers ps w) = lis w" "conn_chans (stop_workers ps w) = conn_chans w"
  "err_chans (stop_workers ps w) = err_chans w" "conn_closed (stop_workers ps w) = conn_closed w"
  by (induction ps w rule: stop_workers.induct) simp_all

lemma Protocol_Close_frame:
  "kept_fields (lis w) (lis (fst (Protocol_Close w p)))"
  "workers (lis (fst (Protocol_Close w p))) = workers (lis w)"
  "sockAddr (lis (fst (Protocol_Close w p))) = sockAddr (lis w)"
  "err_chans (fst (Protocol_Close w p)) = err_chans w"
  "worker_heap (fst (Protocol_Close w p)) = worker_heap w"
  "sock_closed (fst (Protocol_Close w p)) = sock_closed w"
  by (simp_all add: Protocol_Close_def kept_fields_def split: option.splits sum.splits)

lemma stop_routes_frame:
  "kept_fields (lis w) (lis (fst (stop_routes ks w)))
   \<and> workers (lis (fst (stop_routes ks w))) = workers (lis w)
   \<and> sockAddr (lis (fst (stop_routes ks w))) = sockAddr (lis w)
   \<and> err_chans (fst (stop_routes ks w)) = err_chans w
   \<and> worker_heap (fst (stop_routes ks w)) = worker_heap w
   \<and> sock_closed (fst (stop_routes ks w)) = sock_closed w"
proof (induction ks w rule: stop_routes.induct)
  case (1 w)
  show ?case by simp
next
  case (2 k ks w)
  show ?case
  proof (cases "map_of (channels (lis w)) k")
    case None
    with 2(1) show ?thesis by simp
  next
    case (Some p)
    obtain w' r where pc: "Protocol_Close w p = (w', r)" by (cases "Protocol_Close w p")
    have fr: "kept_fields (lis w) (lis w')" "workers (lis w') = workers (lis w)"
      "sockAddr (lis w') = sockAddr (lis w)" "err_chans w' = err_chans w"
      "worker_heap w' = worker_heap w" "sock_closed w' = sock_closed w"
      using Protocol_Close_frame[of w p] pc by simp_all
    show ?thesis
    proof (cases r)
      case (Inl e)
      with Some pc fr show ?thesis by simp
    next
      case (Inr x)
      from 2(2)[OF Some pc[symmetric] Inr] fr Some pc Inr show ?thesis
        by (auto intro: kept_fields_trans)
    qed
  qed
qed

lemma drain_default_frame [simp]:
  "lis (drain_default w) = lis w" "err_chans (drain_default w) = err_chans w"
  "worker_heap (drain_default w) = worker_heap w" "sock_closed (drain_default w) = sock_closed w"
  by (simp_all add: drain_default_def split: prod.splits recv.splits)

lemma Listener_Stop_unfold:
  assumes "stop_routes (map fst (channels (lis w))) (stop_workers (workers (lis w)) w) = (w2, r)"
  shows "Listener_Stop w =
     (case r of
        Some e \<Rightarrow> (w2, Some e)
      | None \<Rightarrow>
          (case chan_close (conn_chans (drain_default w2)) (defaultChannel (lis w2)) of
             Inl e \<Rightarrow> (drain_default w2, Some e)
           | Inr h \<Rightarrow>
               ((drain_default w2)\<lparr>conn_chans := h,
                   lis := (lis (drain_default w2))\<lparr>workers := [], channels := [], sockAddr := None\<rparr>\<rparr>,
                None)))"
  using assms by (simp add: Listener_Stop_def Let_def)

lemma Listener_Stop_frame:
  "kept_fields (lis w) (lis (fst (Listener_Stop w)))
   \<and> err_chans (fst (Listener_Stop w)) = err_chans w"
proof -
  obtain w2 r where sr:
    "stop_routes (map fst (channels (lis w))) (stop_workers (workers (lis w)) w) = (w2, r)"
    by (cases "stop_routes (map fst (channels (lis w))) (stop_workers (workers (lis w)) w)")
  have l2: "kept_fields (lis w) (lis w2)" "err_chans w2 = err_chans w"
    using stop_routes_frame[of "stop_workers (workers (lis w)) w" "map fst (channels (lis w))"] sr
    by simp_all
  then show ?thesis
    unfolding Listener_Stop_unfold[OF sr]
    by (auto simp: kept_fields_def split: option.splits sum.splits)
qed

text \<open>
  C10. Whether \<^verbatim>\<open>Stop\<close> returns or panics, the listener it leaves has the
  \<open>BindAddr\<close>, \<open>TLSConfig\<close>, worker count and resolved address \<open>addr\<close> it had, and
  also the references of its default and error channels; so \<^verbatim>\<open>Addr()\<close> after
  \<^verbatim>\<open>Stop\<close> returns what it returned before. The fields \<^verbatim>\<open>Stop\<close> assigns are
  \<open>workers\<close>, \<open>channels\<close> and \<open>sockAddr\<close>; of the two channels it closes the default
  one and does not touch the error channel.
\<close>

theorem Stop_keeps_configuration:
  "BindAddr (lis (fst (Listener_Stop w))) = BindAddr (lis w)
   \<and> TLSConfig (lis (fst (Listener_Stop w))) = TLSConfig (lis w)
   \<and> Listeners (lis (fst (Listener_Stop w))) = Listeners (lis w)
   \<and> addr (lis (fst (Listener_Stop w))) = addr (lis w)
   \<and> defaultChannel (lis (fst (Listener_Stop w))) = defaultChannel (lis w)
   \<and> errors (lis (fst (Listener_Stop w))) = errors (lis w)
   \<and> err_chans (fst (Listener_Stop w)) = err_chans w
   \<and> Listener_Addr (fst (Listener_Stop w)) = Listener_Addr w"
  using Listener_Stop_frame[of w] by (simp add: kept_fields_def Listener_Addr_def)

section \<open>Accept after close\<close>

lemma chan_at_nil [simp]: "chan_at h None = None"
  by (simp add: chan_at_def)

lemma chan_recv_at:
  assumes "chan_at h r = Some c"
  shows "snd (chan_recv h r) =
           (case buf c of [] \<Rightarrow> if is_closed c then ReceivedClosed else RecvBlocks
                        | x # xs \<Rightarrow> Received x)"
  using assms by (cases r) (auto simp: chan_recv_def split: list.splits)

lemma Protocol_Accept_closed:
  assumes "chan_at (conn_chans w) (Some (channel p)) = Some c" "is_closed c"
  shows "snd (Protocol_Accept w p) =
           (case buf c of [] \<Rightarrow> Returns (Inl UseOfClosedSocket) | x # xs \<Rightarrow> Returns (Inr x))"
  using chan_recv_at[OF assms(1)] assms(2)
  by (auto simp: Protocol_Accept_def split: list.splits prod.splits recv.splits)

lemma Accept_default_closed:
  assumes "chan_at (conn_chans w) (defaultChannel (lis w)) = Some d" "is_closed d"
    "addr (lis w) = Some a"
  shows "snd (Accept_default w) =
           (case buf d of [] \<Rightarrow> Returns (None, Some (UseOfClosedNetworkConnection a))
                        | x # xs \<Rightarrow> Returns (Some x, None))"
  using chan_recv_at[OF assms(1)] assms(2,3)
  by (auto simp: Accept_default_def split: list.splits prod.splits recv.splits)

lemma Accept_errors_ready:
  assumes "recv_ready (err_chans w) (errors (lis w))"
  shows "\<exists>e. snd (Accept_errors w) = Returns (None, e)"
proof -
  from assms obtain c where c: "chan_at (err_chans w) (errors (lis w)) = Some c"
    by (auto simp: recv_ready_def split: option.splits)
  with assms have "buf c \<noteq> [] \<or> is_closed c"
    by (auto simp: recv_ready_def split: list.splits)
  with chan_recv_at[OF c] show ?thesis
    by (auto simp: Accept_errors_def split: list.splits prod.splits recv.splits)
qed

text \<open>
  A closed default queue whose listener never resolved its address (\<^verbatim>\<open>Start\<close> failed
  on the bind address and called \<^verbatim>\<open>Stop\<close>): building the error calls a method of
  the nil \<open>addr\<close>.
\<close>

lemma Accept_default_closed_no_addr:
  assumes "chan_at (conn_chans w) (defaultChannel (lis w)) = Some d" "is_closed d"
    "buf d = []" "addr (lis w) = None"
  shows "snd (Accept_default w) = Panics NilDereference"
  using chan_recv_at[OF assms(1)] assms(2,3,4)
  by (auto simp: Accept_default_def split: list.splits prod.splits recv.splits)

text \<open>
  What a caller can get from \<^verbatim>\<open>Accept\<close> after a close besides the error of a closed
  connection. In the run of the test suite, let a connection that negotiated "h2" be
  routed and not yet accepted when the listener is stopped: \<^verbatim>\<open>Stop\<close> closes the
  route's channel with the connection still in it, and \<^verbatim>\<open>Accept\<close> on the closed
  route returns that connection. And let a worker error wait in the error channel
  when the listener is stopped: \<^verbatim>\<open>Accept\<close> on the listener can return that error.
\<close>

lemma closed_route_returns_queued_connection:
  "snd (Listener_Protocol test_world ''h2'') = Inr (Inr h2_route)
   \<and> snd (Listener_Stop routed_world) = None
   \<and> chan_at (conn_chans (fst (Listener_Stop routed_world))) (Some (channel h2_route))
       = Some \<lparr>buf = [7], capacity = 1, is_closed = True\<rparr>
   \<and> snd (Protocol_Accept (fst (Listener_Stop routed_world)) h2_route) = Returns (Inr 7)
   \<and> chan_at (conn_chans pending_error_world) (defaultChannel (lis pending_error_world))
       = Some \<lparr>buf = [], capacity = 1, is_closed = True\<rparr>
   \<and> snd (Listener_Accept PickErrors pending_error_world) = Returns (None, Some too_many_files)"
  by code_simp

text \<open>
  \<^verbatim>\<open>Accept\<close> on a route whose channel is closed returns at once: the connection still
  waiting in the queue if there is one, else the error "use of closed socket".
  \<^verbatim>\<open>Accept\<close> on a listener whose default channel is closed and whose address is
  resolved returns at once, whichever ready case \<^verbatim>\<open>select\<close> picks; with the default
  queue empty and nothing to receive from the error channel it returns the error
  "accept (network) (address): use of closed network connection".
\<close>

lemma Accept_closed_resolved:
  "(\<forall>c. chan_at (conn_chans w) (Some (channel p)) = Some c \<and> is_closed c \<longrightarrow>
      snd (Protocol_Accept w p) =
        (case buf c of [] \<Rightarrow> Returns (Inl UseOfClosedSocket) | x # xs \<Rightarrow> Returns (Inr x)))
   \<and> (\<forall>d a. chan_at (conn_chans w) (defaultChannel (lis w)) = Some d \<and> is_closed d
          \<and> addr (lis w) = Some a \<longrightarrow>
        (\<exists>r. snd (Listener_Accept pick w) = Returns r)
        \<and> (buf d = [] \<and> \<not> recv_ready (err_chans w) (errors (lis w)) \<longrightarrow>
             snd (Listener_Accept pick w) = Returns (None, Some (UseOfClosedNetworkConnection a))))"
proof (intro conjI allI impI)
  fix c assume "chan_at (conn_chans w) (Some (channel p)) = Some c \<and> is_closed c"
  then show "snd (Protocol_Accept w p) =
        (case buf c of [] \<Rightarrow> Returns (Inl UseOfClosedSocket) | x # xs \<Rightarrow> Returns (Inr x))"
    using Protocol_Accept_closed by blast
next
  fix d a
  assume h: "chan_at (conn_chans w) (defaultChannel (lis w)) = Some d \<and> is_closed d
    \<and> addr (lis w) = Some a"
  then have rd: "recv_ready (conn_chans w) (defaultChannel (lis w))"
    by (auto simp: recv_ready_def split: list.splits)
  from h have dflt: "\<exists>r. snd (Accept_default w) = Returns r"
    using Accept_default_closed[of w d a] by (auto split: list.splits)
  show "\<exists>r. snd (Listener_Accept pick w) = Returns r"
    using rd dflt Accept_errors_ready[of w]
    by (cases pick) (auto simp: Listener_Accept_def Let_def)
  assume "buf d = [] \<and> \<not> recv_ready (err_chans w) (errors (lis w))"
  then show "snd (Listener_Accept pick w) = Returns (None, Some (UseOfClosedNetworkConnection a))"
    using rd h Accept_default_closed[of w d a] by (simp add: Listener_Accept_def Let_def)
qed

lemma stopped_world_eq:
  "stopped_world =
     \<lparr>lis = \<lparr>BindAddr = ''127.0.0.1:6080'', TLSConfig = Some \<lparr>NextProtos = [''h2'']\<rparr>,
             Listeners = 1, workers = [],
             addr = Some \<lparr>IP = test_ip, Zone = [], Port = 6080\<rparr>,
             sockAddr = None, channels = [],
             defaultChannel = Some 1, errors = Some 0\<rparr>,
      conn_chans = [\<lparr>buf = [], capacity = 1, is_closed = True\<rparr>,
                    \<lparr>buf = [], capacity = 1, is_closed = True\<rparr>],
      err_chans = [make_chan 1],
      worker_heap = [\<lparr>running = False, socket = 0\<rparr>], sock_closed = [True],
      conn_closed = [], accept_loops = [0], routing_tasks = []\<rparr>"
  by code_simp

lemma Accept_closed_resolved_test_run:
  "chan_at (conn_chans stopped_world) (Some (channel h2_route))
      = Some \<lparr>buf = [], capacity = 1, is_closed = True\<rparr>
   \<and> chan_at (conn_chans stopped_world) (defaultChannel (lis stopped_world))
      = Some \<lparr>buf = [], capacity = 1, is_closed = True\<rparr>
   \<and> addr (lis stopped_world) = Some \<lparr>IP = test_ip, Zone = [], Port = 6080\<rparr>
   \<and> \<not> recv_ready (err_chans stopped_world) (errors (lis stopped_world))
   \<and> snd (Protocol_Accept stopped_world h2_route) = Returns (Inl UseOfClosedSocket)
   \<and> snd (Listener_Accept PickDefault stopped_world)
      = Returns (None, Some (UseOfClosedNetworkConnection \<lparr>IP = test_ip, Zone = [], Port = 6080\<rparr>))"
proof -
  have a: "chan_at (conn_chans stopped_world) (Some (channel h2_route))
      = Some \<lparr>buf = [], capacity = 1, is_closed = True\<rparr>"
    by (simp add: stopped_world_eq h2_route_def chan_at_def)
  have b: "chan_at (conn_chans stopped_world) (defaultChannel (lis stopped_world))
      = Some \<lparr>buf = [], capacity = 1, is_closed = True\<rparr>"
    by (simp add: stopped_world_eq chan_at_def)
  have c: "addr (lis stopped_world) = Some \<lparr>IP = test_ip, Zone = [], Port = 6080\<rparr>"
    by (simp add: stopped_world_eq)
  have d: "\<not> recv_ready (err_chans stopped_world) (errors (lis stopped_world))"
    by (simp add: stopped_world_eq recv_ready_def chan_at_def make_chan_def)
  show ?thesis
    using Accept_closed_resolved[of stopped_world h2_route PickDefault] a b c d by simp
qed

text \<open>
  C6. The claim: \<^verbatim>\<open>Accept\<close> on a closed default route and on a closed route returns
  an error of the class "closed network connection", and never panics or blocks.
  The code: a \<^verbatim>\<open>Start\<close> that fails on the bind address returns its error after
  calling \<^verbatim>\<open>Stop\<close>, which closes the default channel while \<open>addr\<close> is still nil.
  \<^verbatim>\<open>Accept\<close> on that listener takes the closed default channel, whichever case
  \<^verbatim>\<open>select\<close> would prefer, and builds its error with \<^verbatim>\<open>listener.addr.Network()\<close>:
  it panics on the nil \<open>addr\<close>. In the run of the test suite, after \<^verbatim>\<open>Stop\<close>, the
  listener returns "accept (network) (address): use of closed network connection" and
  the route returns "use of closed socket", where listener\_test.go expects the
  listener's message from the route as well.
\<close>

theorem Accept_after_failed_Start_panics:
  "snd (Listener_Start portless_env no_failures portless_world)
     = Inr (Some (BuilderWorkerSocket (GetSocketAddressForBind
                    (SplitListenerAddress (External ''missing port in address'')))))
   \<and> chan_at (conn_chans failed_start_world) (defaultChannel (lis failed_start_world))
       = Some \<lparr>buf = [], capacity = 1, is_closed = True\<rparr>
   \<and> snd (Listener_Accept PickDefault failed_start_world) = Panics NilDereference
   \<and> snd (Listener_Accept PickErrors failed_start_world) = Panics NilDereference
   \<and> snd (Listener_Accept PickDefault stopped_world)
       = Returns (None, Some (UseOfClosedNetworkConnection \<lparr>IP = test_ip, Zone = [], Port = 6080\<rparr>))
   \<and> snd (Protocol_Accept stopped_world h2_route) = Returns (Inl UseOfClosedSocket)"
  by code_simp

section \<open>The lifetime of the default queue and the error channel\<close>

lemma getSocketAddress_frame:
  "getSocketAddress env l = (l', r) \<Longrightarrow>
     BindAddr l' = BindAddr l \<and> TLSConfig l' = TLSConfig l \<and> Listeners l' = Listeners l
     \<and> workers l' = workers l \<and> channels l' = channels l
     \<and> defaultChannel l' = defaultChannel l \<and> errors l' = errors l"
  by (auto simp: getSocketAddress_def Let_def split: option.splits sum.splits prod.splits if_splits)

lemma buildSocket_frame:
  assumes "buildSocket env failure w = (w', r)"
  shows "conn_chans w' = conn_chans w" "err_chans w' = err_chans w"
    "worker_heap w' = worker_heap w" "conn_closed w' = conn_closed w"
    "workers (lis w') = workers (lis w)" "channels (lis w') = channels (lis w)"
    "defaultChannel (lis w') = defaultChannel (lis w)" "errors (lis w') = errors (lis w)"
    "Listeners (lis w') = Listeners (lis w)"
proof -
  obtain l' ra where g: "getSocketAddress env (lis w) = (l', ra)"
    by (cases "getSocketAddress env (lis w)")
  note fr = getSocketAddress_frame[OF g]
  from assms g have "w' = w\<lparr>lis := l'\<rparr> \<or> w' = w\<lparr>lis := l', sock_closed := sock_closed w @ [False]\<rparr>"
    by (auto simp: buildSocket_def split: sum.splits option.splits prod.splits)
  with fr show "conn_chans w' = conn_chans w" "err_chans w' = err_chans w"
    "worker_heap w' = worker_heap w" "conn_closed w' = conn_closed w"
    "workers (lis w') = workers (lis w)" "channels (lis w') = channels (lis w)"
    "defaultChannel (lis w') = defaultChannel (lis w)" "errors (lis w') = errors (lis w)"
    "Listeners (lis w') = Listeners (lis w)"
    by auto
qed

lemma worker_start_frame [simp]:
  "lis (worker_start w i) = lis w" "conn_chans (worker_start w i) = conn_chans w"
  "err_chans (worker_start w i) = err_chans w" "conn_closed (worker_start w i) = conn_closed w"
  "sock_closed (worker_start w i) = sock_closed w"
  by (simp_all add: worker_start_def worker_set_running_def)

lemma start_workers_success_frame:
  "start_workers env failures js w = (w', Inr None) \<Longrightarrow>
     conn_chans w' = conn_chans w \<and> err_chans w' = err_chans w
     \<and> defaultChannel (lis w') = defaultChannel (lis w) \<and> errors (lis w') = errors (lis w)"
proof (induction js arbitrary: w)
  case Nil
  then show ?case by simp
next
  case (Cons i js)
  obtain w1 r where b: "buildSocket env (failures i) w = (w1, r)"
    by (cases "buildSocket env (failures i) w")
  note fr = buildSocket_frame[OF b]
  show ?case
  proof (cases r)
    case (Inl e)
    with Cons.prems b show ?thesis
      by (auto split: prod.splits option.splits)
  next
    case (Inr s)
    define w3 where "w3 = worker_start
        (w1\<lparr>worker_heap := worker_heap w1 @ [\<lparr>running = False, socket = s\<rparr>],
            lis := (lis w1)\<lparr>workers := (workers (lis w1))[i := Some (length (worker_heap w1))]\<rparr>\<rparr>)
        (length (worker_heap w1))"
    from Cons.prems b Inr have "start_workers env failures js w3 = (w', Inr None)"
      by (simp add: Let_def w3_def)
    from Cons.IH[OF this] fr show ?thesis
      by (simp add: w3_def)
  qed
qed

lemma Listener_Start_creates:
  assumes "Listener_Start env failures w = (w', Inr None)"
  shows "defaultChannel (lis w') = Some (length (conn_chans w))
     \<and> errors (lis w') = Some (length (err_chans w))
     \<and> conn_chans w' = conn_chans w @ [make_chan 1]
     \<and> err_chans w' = err_chans w @ [make_chan 1]"
proof -
  define n where "n = (if Listeners (lis w) = 0 then 1 else Listeners (lis w))"
  define w0 where "w0 = w\<lparr>lis := (lis w)\<lparr>Listeners := n\<rparr>\<rparr>"
  define w1 where "w1 = w0\<lparr>lis := (lis w0)\<lparr>workers := replicate (nat n) None,
                                   defaultChannel := Some (length (conn_chans w0)),
                                   errors := Some (length (err_chans w0))\<rparr>,
                 conn_chans := conn_chans w0 @ [make_chan 1],
                 err_chans := err_chans w0 @ [make_chan 1]\<rparr>"
  from assms have "\<not> n < 0" and sw: "start_workers env failures [0..<nat n] w1 = (w', Inr None)"
    by (auto simp: Listener_Start_def Let_def n_def w0_def w1_def split: if_splits)
  from start_workers_success_frame[OF sw] show ?thesis
    by (simp add: w1_def w0_def)
qed

lemma chan_close_at:
  assumes "chan_close h r = Inr h'"
  shows "\<exists>i c. r = Some i \<and> chan_at h r = Some c \<and> \<not> is_closed c
            \<and> h' = h[i := c\<lparr>is_closed := True\<rparr>] \<and> chan_at h' r = Some (c\<lparr>is_closed := True\<rparr>)"
  using assms
  by (cases r) (auto simp: chan_close_def chan_at_def split: option.splits if_splits)

lemma Listener_Stop_closes_default:
  assumes "Listener_Stop w = (w', None)"
  shows "\<exists>c. chan_at (conn_chans w') (defaultChannel (lis w)) = Some c \<and> is_closed c"
proof -
  obtain w2 r where sr:
    "stop_routes (map fst (channels (lis w))) (stop_workers (workers (lis w)) w) = (w2, r)"
    by (cases "stop_routes (map fst (channels (lis w))) (stop_workers (workers (lis w)) w)")
  have l2: "kept_fields (lis w) (lis w2)"
    using stop_routes_frame[of "stop_workers (workers (lis w)) w" "map fst (channels (lis w))"] sr
    by simp
  from assms[unfolded Listener_Stop_unfold[OF sr]] obtain h where
    h: "chan_close (conn_chans (drain_default w2)) (defaultChannel (lis w2)) = Inr h"
    and w': "conn_chans w' = h"
    by (auto split: option.splits sum.splits)
  from chan_close_at[OF h] l2 w' show ?thesis
    by (auto simp: kept_fields_def)
qed

lemma test_run:
  "Listener_Start test_env no_failures registered_world = (started_world, Inr None)"
  "Listener_Stop started_world = (stopped_world, None)"
proof -
  have "snd (Listener_Start test_env no_failures registered_world) = Inr None"
    by code_simp
  then show "Listener_Start test_env no_failures registered_world = (started_world, Inr None)"
    by (simp add: started_world_def prod_eq_iff)
  have "snd (Listener_Stop started_world) = None"
    by code_simp
  then show "Listener_Stop started_world = (stopped_world, None)"
    by (simp add: stopped_world_def prod_eq_iff)
qed

text \<open>
  C7, as the claim states it, fails: \<^verbatim>\<open>Stop\<close> never closes the error channel. After
  the test suite's Start and Stop the channel the \<open>errors\<close> field refers to is open.
\<close>

theorem error_channel_open_after_Stop:
  "Listener_Stop started_world = (stopped_world, None)
   \<and> chan_at (err_chans stopped_world) (errors (lis stopped_world))
       = Some \<lparr>buf = [], capacity = 1, is_closed = False\<rparr>"
  using test_run(2) by (simp add: stopped_world_eq chan_at_def make_chan_def)

text \<open>
  C7, amended. A \<^verbatim>\<open>Start\<close> that succeeds has made the default queue and the error
  channel anew: both fields refer to channels that did not exist before, open, empty
  and of capacity 1. A \<^verbatim>\<open>Stop\<close> that returns has closed the default queue, and has
  left the error channel, and every channel of errors, exactly as it was: the error
  channel is not closed. Neither \<^verbatim>\<open>Stop\<close> nor \<^verbatim>\<open>Protocol\<close>, \<^verbatim>\<open>Accept\<close>,
  \<^verbatim>\<open>connectionReceived\<close> or a route's \<^verbatim>\<open>Accept\<close> and \<^verbatim>\<open>Close\<close> makes either field
  refer to another channel.
\<close>

theorem channels_lifetime:
  "(Listener_Start env failures w = (w1, Inr None) \<longrightarrow>
      defaultChannel (lis w1) = Some (length (conn_chans w))
      \<and> errors (lis w1) = Some (length (err_chans w))
      \<and> chan_at (conn_chans w1) (defaultChannel (lis w1)) = Some (make_chan 1)
      \<and> chan_at (err_chans w1) (errors (lis w1)) = Some (make_chan 1))
   \<and> (Listener_Stop w = (w2, None) \<longrightarrow>
        (\<exists>c. chan_at (conn_chans w2) (defaultChannel (lis w)) = Some c \<and> is_closed c)
        \<and> defaultChannel (lis w2) = defaultChannel (lis w)
        \<and> errors (lis w2) = errors (lis w)
        \<and> err_chans w2 = err_chans w)
   \<and> defaultChannel (lis (fst (Listener_Protocol w name))) = defaultChannel (lis w)
   \<and> errors (lis (fst (Listener_Protocol w name))) = errors (lis w)
   \<and> lis (fst (Listener_Accept pick w)) = lis w
   \<and> lis (fst (connectionReceived w conn hs)) = lis w
   \<and> lis (fst (Protocol_Accept w p)) = lis w
   \<and> defaultChannel (lis (fst (Protocol_Close w p))) = defaultChannel (lis w)
   \<and> errors (lis (fst (Protocol_Close w p))) = errors (lis w)"
proof (intro conjI impI)
  assume s: "Listener_Start env failures w = (w1, Inr None)"
  from Listener_Start_creates[OF s]
  show "defaultChannel (lis w1) = Some (length (conn_chans w))"
    "errors (lis w1) = Some (length (err_chans w))"
    "chan_at (conn_chans w1) (defaultChannel (lis w1)) = Some (make_chan 1)"
    "chan_at (err_chans w1) (errors (lis w1)) = Some (make_chan 1)"
    by (simp_all add: chan_at_def)
next
  assume s: "Listener_Stop w = (w2, None)"
  from Listener_Stop_closes_default[OF s]
  show "\<exists>c. chan_at (conn_chans w2) (defaultChannel (lis w)) = Some c \<and> is_closed c" .
  from Listener_Stop_frame[of w] s
  show "defaultChannel (lis w2) = defaultChannel (lis w)" "errors (lis w2) = errors (lis w)"
    "err_chans w2 = err_chans w"
    by (simp_all add: kept_fields_def)
next
  show "defaultChannel (lis (fst (Listener_Protocol w name))) = defaultChannel (lis w)"
    "errors (lis (fst (Listener_Protocol w name))) = errors (lis w)"
    by (simp_all add: Listener_Protocol_def Let_def split: sum.splits bool.splits)
  show "lis (fst (Listener_Accept pick w)) = lis w"
    by (simp add: Listener_Accept_def Accept_default_def Accept_errors_def Let_def
          split: prod.splits recv.splits option.splits select_pick.splits)
  show "lis (fst (connectionReceived w conn hs)) = lis w"
    by (simp add: connectionReceived_def Let_def split: handshake.splits res.splits)
  show "lis (fst (Protocol_Accept w p)) = lis w"
    by (simp add: Protocol_Accept_def split: prod.splits recv.splits)
  from Protocol_Close_frame(1)[of w p]
  show "defaultChannel (lis (fst (Protocol_Close w p))) = defaultChannel (lis w)"
    "errors (lis (fst (Protocol_Close w p))) = errors (lis w)"
    by (simp_all add: kept_fields_def)
qed

theorem channels_lifetime_witness:
  "Listener_Start test_env no_failures registered_world = (started_world, Inr None)
   \<and> Listener_Stop started_world = (stopped_world, None)
   \<and> defaultChannel (lis started_world) = Some (length (conn_chans registered_world))
   \<and> chan_at (conn_chans started_world) (defaultChannel (lis started_world)) = Some (make_chan 1)
   \<and> chan_at (err_chans started_world) (errors (lis started_world)) = Some (make_chan 1)
   \<and> (\<exists>c. chan_at (conn_chans stopped_world) (defaultChannel (lis started_world)) = Some c
          \<and> is_closed c)
   \<and> err_chans stopped_world = err_chans started_world"
proof -
  note a = channels_lifetime[where env=test_env and failures=no_failures and w=registered_world
      and ?w1.0=started_world, THEN conjunct1, rule_format, OF test_run(1)]
  note b = channels_lifetime[where w=started_world and ?w2.0=stopped_world, THEN conjunct2, THEN conjunct1,
      rule_format, OF test_run(2)]
  from a b test_run show ?thesis by blast
qed

section \<open>Starting a worker twice, and the accept loop after stop\<close>

lemma worker_start_idempotent:
  "worker_isRunning w i \<Longrightarrow> worker_start w i = w"
  by (simp add: worker_start_def)

lemma worker_start_steps:
  "run_starts [False, False] i (w, StartCheck, b) = (worker_start w i, StartReturned, b)"
  by (simp add: start_step_def worker_start_def)

lemma worker_start_runs:
  "i < length (worker_heap w) \<Longrightarrow> worker_isRunning (worker_start w i) i"
  by (simp add: worker_start_def worker_isRunning_def worker_set_running_def)

lemma racing_starts:
  assumes "i < length (worker_heap w)" "\<not> worker_isRunning w i"
  shows "accept_loops (fst (run_starts [False, True, False, True] i (w, StartCheck, StartCheck)))
           = accept_loops w @ [i, i]"
  using assms by (simp add: start_step_def worker_set_running_def worker_isRunning_def)

lemma worker_stop_stops:
  assumes "i < length (worker_heap w)" "socket (worker_heap w ! i) < length (sock_closed w)"
  shows "\<not> worker_isRunning (worker_stop w i) i" "socket_is_closed (worker_stop w i) i"
  using assms by (simp_all add: worker_stop_def worker_isRunning_def socket_is_closed_def)

lemma chan_send_at:
  assumes "chan_at h (Some e) = Some c"
  shows "chan_send h (Some e) v =
           (if is_closed c then Panics SendOnClosedChannel
            else if length (buf c) < capacity c then Returns (h[e := c\<lparr>buf := buf c @ [v]\<rparr>])
            else Blocks)"
  using assms by (simp add: chan_send_def)

text \<open>
  C8. A second \<^verbatim>\<open>start\<close> on a running worker returns at once and launches nothing:
  called on the idle worker it yields the started world, with one accept loop, and
  called again it changes nothing. But the check and the flip are two critical
  sections: \<^verbatim>\<open>isRunning\<close> locks, reads and unlocks, and only then \<^verbatim>\<open>start\<close> locks
  again to set the flag. Two callers that both run the check before either runs the
  flip both launch \<^verbatim>\<open>listen\<close>: the worker has two accept loops.
\<close>

theorem concurrent_starts_launch_two_loops:
  "worker_start idle_world 0 = started_world
   \<and> worker_start started_world 0 = started_world
   \<and> accept_loops started_world = [0]
   \<and> run_starts [False, True, False, True] 0 (idle_world, StartCheck, StartCheck)
        = (started_world\<lparr>accept_loops := [0, 0]\<rparr>, StartReturned, StartReturned)"
  by code_simp

text \<open>
  C9, amended. After \<^verbatim>\<open>stop\<close> on a worker, its accept loop at the loop test returns;
  its accept loop inside \<^verbatim>\<open>Accept\<close> gets the error of the closed socket whatever the
  network brings, and forwards it to the listener's error channel as it does every
  accept error: if the channel has a free slot the error is queued there and the
  loop returns at the next test, three steps in all; if the channel is full the loop
  waits in the send.
\<close>

theorem listen_after_stop:
  assumes "i < length (worker_heap w)" "socket (worker_heap w ! i) < length (sock_closed w)"
  shows "listen_step (worker_stop w i) i ev ListenCheck = (worker_stop w i, ListenReturned)
    \<and> listen_step (worker_stop w i) i ev ListenAccept
         = (worker_stop w i, ListenForward closed_socket_error)
    \<and> (\<forall>e c. errors (lis w) = Some e \<and> chan_at (err_chans w) (Some e) = Some c
           \<and> \<not> is_closed c \<and> length (buf c) < capacity c \<longrightarrow>
         run_listen [ev1, ev2, ev3] i (worker_stop w i, ListenAccept)
           = ((worker_stop w i)\<lparr>err_chans := (err_chans w)[e := c\<lparr>buf := buf c @ [closed_socket_error]\<rparr>]\<rparr>,
              ListenReturned))
    \<and> (\<forall>e c x. errors (lis w) = Some e \<and> chan_at (err_chans w) (Some e) = Some c
           \<and> \<not> is_closed c \<and> \<not> length (buf c) < capacity c \<longrightarrow>
         listen_step (worker_stop w i) i ev (ListenForward x) = (worker_stop w i, ListenForward x))"
proof -
  let ?ws = "worker_stop w i"
  note st = worker_stop_stops[OF assms]
  have a: "listen_step ?ws i ev ListenCheck = (?ws, ListenReturned)" for ev
    using st by (simp add: listen_step_def)
  have b: "listen_step ?ws i ev ListenAccept = (?ws, ListenForward closed_socket_error)" for ev
    using st by (simp add: listen_step_def)
  have fr: "errors (lis ?ws) = errors (lis w)" "err_chans ?ws = err_chans w"
    by (simp_all add: worker_stop_def)
  have c: "run_listen [ev1, ev2, ev3] i (?ws, ListenAccept)
           = (?ws\<lparr>err_chans := (err_chans w)[e := c\<lparr>buf := buf c @ [closed_socket_error]\<rparr>]\<rparr>,
              ListenReturned)"
    if h: "errors (lis w) = Some e" "chan_at (err_chans w) (Some e) = Some c"
      "\<not> is_closed c" "length (buf c) < capacity c" for e c
  proof -
    let ?w3 = "?ws\<lparr>err_chans := (err_chans w)[e := c\<lparr>buf := buf c @ [closed_socket_error]\<rparr>]\<rparr>"
    have s2: "listen_step ?ws i ev2 (ListenForward closed_socket_error) = (?w3, ListenCheck)"
      using h fr chan_send_at[OF h(2)] by (simp add: listen_step_def)
    have nr: "\<not> worker_isRunning ?w3 i"
      using st(1) by (simp add: worker_isRunning_def)
    have s3: "listen_step ?w3 i ev3 ListenCheck = (?w3, ListenReturned)"
      using nr by (simp add: listen_step_def)
    show ?thesis
      by (simp add: b s2 s3)
  qed
  have d: "listen_step ?ws i ev (ListenForward x) = (?ws, ListenForward x)"
    if h: "errors (lis w) = Some e" "chan_at (err_chans w) (Some e) = Some c"
      "\<not> is_closed c" "\<not> length (buf c) < capacity c" for e c x
    using h fr chan_send_at[OF h(2)] by (simp add: listen_step_def)
  from a b c d show ?thesis by blast
qed

text \<open>
  C9, as the claim states it, fails. In the test suite's run the accept loop of the
  worker is inside \<^verbatim>\<open>Accept\<close> when the listener is stopped; the loop then puts the
  error of the closed socket into the error channel and returns.
\<close>

theorem post_stop_error_forwarded:
  "listen_step started_world 0 NoEvent ListenCheck = (started_world, ListenAccept)
   \<and> Listener_Stop started_world = (stopped_world, None)
   \<and> snd (run_listen [NoEvent, NoEvent, NoEvent] 0 (stopped_world, ListenAccept)) = ListenReturned
   \<and> chan_at (err_chans (fst (run_listen [NoEvent, NoEvent, NoEvent] 0 (stopped_world, ListenAccept))))
        (errors (lis stopped_world))
       = Some \<lparr>buf = [closed_socket_error], capacity = 1, is_closed = False\<rparr>"
proof -
  have "listen_step started_world 0 NoEvent ListenCheck = (started_world, ListenAccept)"
    by (simp add: listen_step_def worker_isRunning_def started_world_eq)
  moreover have "snd (run_listen [NoEvent, NoEvent, NoEvent] 0 (stopped_world, ListenAccept)) = ListenReturned"
    by code_simp
  moreover have "chan_at (err_chans (fst (run_listen [NoEvent, NoEvent, NoEvent] 0 (stopped_world, ListenAccept))))
        (errors (lis stopped_world))
       = Some \<lparr>buf = [closed_socket_error], capacity = 1, is_closed = False\<rparr>"
    by code_simp
  ultimately show ?thesis using test_run(2) by simp
qed


theorem listen_after_stop_witness:
  "0 < length (worker_heap started_world)
   \<and> socket (worker_heap started_world ! 0) < length (sock_closed started_world)
   \<and> errors (lis started_world) = Some 0
   \<and> chan_at (err_chans started_world) (Some 0) = Some (make_chan 1)
   \<and> listen_step (worker_stop started_world 0) 0 NoEvent ListenCheck
        = (worker_stop started_world 0, ListenReturned)
   \<and> run_listen [Incoming 9, NoEvent, NoEvent] 0 (worker_stop started_world 0, ListenAccept)
        = ((worker_stop started_world 0)
             \<lparr>err_chans := [\<lparr>buf = [closed_socket_error], capacity = 1, is_closed = False\<rparr>]\<rparr>,
           ListenReturned)"
proof -
  have v: "0 < length (worker_heap started_world)"
    "socket (worker_heap started_world ! 0) < length (sock_closed started_world)"
    by (simp_all add: started_world_eq)
  have e: "errors (lis started_world) = Some 0"
    "chan_at (err_chans started_world) (Some 0) = Some (make_chan 1)"
    "err_chans started_world = [make_chan 1]"
    by (simp_all add: started_world_eq chan_at_def)
  show ?thesis
    using listen_after_stop[OF v, of NoEvent "Incoming 9" NoEvent NoEvent] v e
    by (simp add: make_chan_def)
qed

section \<open>A failed Start\<close>

lemma worker_stop_valid: "worker_valid w j \<Longrightarrow> worker_valid (worker_stop w i) j"
  by (auto simp: worker_valid_def worker_stop_def nth_list_update)

lemma list_update_True_keeps: "b < length xs \<Longrightarrow> xs ! b \<Longrightarrow> xs[a := True] ! b"
  by (cases "a = b") simp_all

lemma worker_stop_keeps_stopped: "worker_stopped w j \<Longrightarrow> worker_stopped (worker_stop w i) j"
  by (auto simp: worker_stopped_def socket_is_closed_def worker_stop_def nth_list_update
        list_update_True_keeps)

lemma worker_stop_makes_stopped: "worker_valid w i \<Longrightarrow> worker_stopped (worker_stop w i) i"
  using worker_stop_stops[of i w] by (simp add: worker_stopped_def worker_valid_def worker_stop_def)

lemma stop_workers_keeps_stopped: "worker_stopped w j \<Longrightarrow> worker_stopped (stop_workers ps w) j"
  by (induction ps w rule: stop_workers.induct) (simp_all add: worker_stop_keeps_stopped)

lemma stop_workers_stops:
  "Some j \<in> set ps \<Longrightarrow> worker_valid w j \<Longrightarrow> worker_stopped (stop_workers ps w) j"
proof (induction ps w rule: stop_workers.induct)
  case (1 w)
  then show ?case by simp
next
  case (2 ps w)
  then show ?case by simp
next
  case (3 i ps w)
  show ?case
  proof (cases "i = j")
    case True
    with 3(3) have "worker_stopped (worker_stop w i) j"
      by (simp add: worker_stop_makes_stopped)
    then show ?thesis by (simp add: stop_workers_keeps_stopped)
  next
    case False
    with 3(2) have "Some j \<in> set ps" by simp
    from 3(1)[OF this worker_stop_valid[OF 3(3)]] show ?thesis by simp
  qed
qed

lemma stop_workers_heap_length [simp]:
  "length (worker_heap (stop_workers ps w)) = length (worker_heap w)"
  by (induction ps w rule: stop_workers.induct) (simp_all add: worker_stop_def)

lemma chan_close_open:
  assumes "chan_at h (Some i) = Some c" "\<not> is_closed c"
  shows "chan_close h (Some i) = Inr (h[i := c\<lparr>is_closed := True\<rparr>])"
  using assms by (simp add: chan_close_def)

lemma Protocol_Close_ok:
  assumes ok: "routes_ok w" and lk: "map_of (channels (lis w)) k = Some p"
  shows "\<exists>w'. Protocol_Close w p = (w', Inr None) \<and> routes_ok w'
           \<and> (\<forall>d c. chan_at (conn_chans w) (Some d) = Some c
                  \<and> d \<notin> (\<lambda>kv. channel (snd kv)) ` set (channels (lis w))
                \<longrightarrow> chan_at (conn_chans w') (Some d) = Some c
                  \<and> d \<notin> (\<lambda>kv. channel (snd kv)) ` set (channels (lis w')))"
proof -
  from lk have mem: "(k, p) \<in> set (channels (lis w))" by (rule map_of_SomeD)
  with ok have pk: "proto p = k" and op: "route_open w p"
    by (auto simp: routes_ok_def list_all_iff)
  from op obtain c where c: "chan_at (conn_chans w) (Some (channel p)) = Some c" "\<not> is_closed c"
    by (auto simp: route_open_def split: option.splits)
  define w' where "w' = w\<lparr>conn_chans := (conn_chans w)[channel p := c\<lparr>is_closed := True\<rparr>],
      lis := (lis w)\<lparr>channels := filter (\<lambda>kv. fst kv \<noteq> proto p) (channels (lis w))\<rparr>\<rparr>"
  have pc: "Protocol_Close w p = (w', Inr None)"
    using lk pk chan_close_open[OF c] by (simp add: Protocol_Close_def w'_def)
  have dist: "distinct (map (\<lambda>kv. channel (snd kv)) (channels (lis w)))"
    using ok by (simp add: routes_ok_def)
  have other: "channel (snd kv) \<noteq> channel p"
    if "kv \<in> set (channels (lis w))" "fst kv \<noteq> proto p" for kv
  proof
    assume eq: "channel (snd kv) = channel p"
    from dist have "inj_on (\<lambda>kv. channel (snd kv)) (set (channels (lis w)))"
      by (simp add: distinct_map)
    from inj_onD[OF this _ that(1) mem] eq have "kv = (k, p)" by simp
    with that(2) pk show False by simp
  qed
  have "routes_ok w'"
    unfolding routes_ok_def
  proof (intro conjI)
    show "distinct (map (\<lambda>kv. channel (snd kv)) (channels (lis w')))"
      using dist by (simp add: w'_def distinct_map_filter)
    show "list_all (\<lambda>kv. proto (snd kv) = fst kv \<and> route_open w' (snd kv)) (channels (lis w'))"
      unfolding list_all_iff
    proof
      fix kv assume "kv \<in> set (channels (lis w'))"
      then have kv: "kv \<in> set (channels (lis w))" "fst kv \<noteq> proto p"
        by (simp_all add: w'_def)
      with ok have a: "proto (snd kv) = fst kv" "route_open w (snd kv)"
        by (auto simp: routes_ok_def list_all_iff)
      from other[OF kv] a(2) have "route_open w' (snd kv)"
        by (auto simp: route_open_def chan_at_def w'_def split: option.splits if_splits)
      with a show "proto (snd kv) = fst kv \<and> route_open w' (snd kv)" by simp
    qed
  qed
  moreover have "chan_at (conn_chans w') (Some d) = Some c'
                  \<and> d \<notin> (\<lambda>kv. channel (snd kv)) ` set (channels (lis w'))"
    if "chan_at (conn_chans w) (Some d) = Some c'"
      "d \<notin> (\<lambda>kv. channel (snd kv)) ` set (channels (lis w))" for d c'
  proof -
    from that(2) mem have "d \<noteq> channel p" by force
    with that show ?thesis
      by (auto simp: chan_at_def w'_def split: if_splits)
  qed
  ultimately show ?thesis using pc by blast
qed

lemma stop_routes_ok:
  assumes "routes_ok w"
  shows "\<exists>w'. stop_routes ks w = (w', None) \<and> routes_ok w'
           \<and> (\<forall>d c. chan_at (conn_chans w) (Some d) = Some c
                  \<and> d \<notin> (\<lambda>kv. channel (snd kv)) ` set (channels (lis w))
                \<longrightarrow> chan_at (conn_chans w') (Some d) = Some c
                  \<and> d \<notin> (\<lambda>kv. channel (snd kv)) ` set (channels (lis w')))"
  using assms
proof (induction ks arbitrary: w)
  case Nil
  then show ?case by simp
next
  case (Cons k ks)
  show ?case
  proof (cases "map_of (channels (lis w)) k")
    case None
    with Cons.IH[OF Cons.prems] show ?thesis by simp
  next
    case (Some p)
    from Protocol_Close_ok[OF Cons.prems Some] obtain w1 where
      w1: "Protocol_Close w p = (w1, Inr None)" "routes_ok w1"
      and keep1: "\<And>d c. chan_at (conn_chans w) (Some d) = Some c
                  \<Longrightarrow> d \<notin> (\<lambda>kv. channel (snd kv)) ` set (channels (lis w))
                \<Longrightarrow> chan_at (conn_chans w1) (Some d) = Some c
                  \<and> d \<notin> (\<lambda>kv. channel (snd kv)) ` set (channels (lis w1))"
      by blast
    from Cons.IH[OF w1(2)] obtain w2 where
      w2: "stop_routes ks w1 = (w2, None)" "routes_ok w2"
      and keep2: "\<And>d c. chan_at (conn_chans w1) (Some d) = Some c
                  \<Longrightarrow> d \<notin> (\<lambda>kv. channel (snd kv)) ` set (channels (lis w1))
                \<Longrightarrow> chan_at (conn_chans w2) (Some d) = Some c
                  \<and> d \<notin> (\<lambda>kv. channel (snd kv)) ` set (channels (lis w2))"
      by blast
    have "stop_routes (k # ks) w = (w2, None)"
      using Some w1(1) w2(1) by simp
    moreover have "chan_at (conn_chans w2) (Some d) = Some c
                  \<and> d \<notin> (\<lambda>kv. channel (snd kv)) ` set (channels (lis w2))"
      if "chan_at (conn_chans w) (Some d) = Some c
                  \<and> d \<notin> (\<lambda>kv. channel (snd kv)) ` set (channels (lis w))" for d c
    proof -
      from that keep1[of d c] have "chan_at (conn_chans w1) (Some d) = Some c"
        "d \<notin> (\<lambda>kv. channel (snd kv)) ` set (channels (lis w1))" by simp_all
      then show ?thesis by (rule keep2)
    qed
    ultimately show ?thesis using w2(2) by simp
  qed
qed

lemma routes_ok_cong:
  "channels (lis w') = channels (lis w) \<Longrightarrow> conn_chans w' = conn_chans w
     \<Longrightarrow> routes_ok w' = routes_ok w"
  by (simp add: routes_ok_def route_open_def)

lemma default_open_cong:
  "defaultChannel (lis w') = defaultChannel (lis w) \<Longrightarrow> channels (lis w') = channels (lis w)
     \<Longrightarrow> conn_chans w' = conn_chans w \<Longrightarrow> default_open w' = default_open w"
  by (simp add: default_open_def split: option.splits)

lemma worker_stopped_cong:
  "worker_heap w' = worker_heap w \<Longrightarrow> sock_closed w' = sock_closed w
     \<Longrightarrow> worker_stopped w' j = worker_stopped w j"
  by (simp add: worker_stopped_def socket_is_closed_def)

lemma drain_default_keeps:
  assumes d: "defaultChannel (lis w) = Some d" and c: "chan_at (conn_chans w) (Some d) = Some c"
  shows "\<exists>c'. chan_at (conn_chans (drain_default w)) (Some d) = Some c'
            \<and> is_closed c' = is_closed c"
proof (cases "buf c")
  case Nil
  with d c have "drain_default w = w"
    by (simp add: drain_default_def chan_len_def)
  with c show ?thesis by simp
next
  case (Cons x xs)
  from c have lt: "d < length (conn_chans w)" and cd: "conn_chans w ! d = c"
    by (simp_all add: chan_at_def split: if_splits)
  have rc: "chan_recv (conn_chans w) (Some d) = ((conn_chans w)[d := c\<lparr>buf := xs\<rparr>], Received x)"
    using c Cons by (simp add: chan_recv_def)
  have "conn_chans (drain_default w) = conn_chans w
      \<or> conn_chans (drain_default w) = (conn_chans w)[d := c\<lparr>buf := xs\<rparr>]"
    using d rc by (simp add: drain_default_def)
  then show ?thesis
    using lt cd by (auto simp: chan_at_def)
qed

lemma Listener_Stop_ok:
  assumes ok: "routes_ok w" and dflt: "default_open w"
  shows "\<exists>w'. Listener_Stop w = (w', None)
           \<and> workers (lis w') = [] \<and> channels (lis w') = [] \<and> sockAddr (lis w') = None
           \<and> worker_heap w' = worker_heap (stop_workers (workers (lis w)) w)
           \<and> sock_closed w' = sock_closed (stop_workers (workers (lis w)) w)
           \<and> default_closed w'"
proof -
  let ?w1 = "stop_workers (workers (lis w)) w"
  from dflt obtain d c where d: "defaultChannel (lis w) = Some d"
    "chan_at (conn_chans w) (Some d) = Some c" "\<not> is_closed c"
    "d \<notin> (\<lambda>kv. channel (snd kv)) ` set (channels (lis w))"
    by (auto simp: default_open_def split: option.splits)
  have ok1: "routes_ok ?w1"
    using ok routes_ok_cong[of ?w1 w] by simp
  from stop_routes_ok[OF ok1, of "map fst (channels (lis w))"] obtain w2 where
    w2: "stop_routes (map fst (channels (lis w))) ?w1 = (w2, None)"
    and keep: "\<And>d c. chan_at (conn_chans ?w1) (Some d) = Some c
                  \<and> d \<notin> (\<lambda>kv. channel (snd kv)) ` set (channels (lis ?w1))
                \<Longrightarrow> chan_at (conn_chans w2) (Some d) = Some c"
    by blast
  have c2: "chan_at (conn_chans w2) (Some d) = Some c"
    using keep[of d c] d by simp
  from stop_routes_frame[of ?w1 "map fst (channels (lis w))"] w2
  have fr: "kept_fields (lis w) (lis w2)" "worker_heap w2 = worker_heap ?w1"
    "sock_closed w2 = sock_closed ?w1"
    by simp_all
  then have d2: "defaultChannel (lis w2) = Some d"
    using d(1) by (simp add: kept_fields_def)
  from drain_default_keeps[OF d2 c2] d(3) obtain c' where
    c': "chan_at (conn_chans (drain_default w2)) (Some d) = Some c'" "\<not> is_closed c'"
    by auto
  note cl = chan_close_open[OF c']
  have "Listener_Stop w =
      ((drain_default w2)\<lparr>conn_chans := (conn_chans (drain_default w2))[d := c'\<lparr>is_closed := True\<rparr>],
          lis := (lis (drain_default w2))\<lparr>workers := [], channels := [], sockAddr := None\<rparr>\<rparr>,
       None)"
    unfolding Listener_Stop_unfold[OF w2] using cl d2 by simp
  moreover have "d < length (conn_chans (drain_default w2))"
    using c'(1) by (simp add: chan_at_def split: if_splits)
  ultimately show ?thesis
    using fr d2 by (simp add: default_closed_def chan_at_def)
qed

lemma buildSocket_sockets:
  assumes "buildSocket env failure w = (w', r)"
  shows "(\<exists>e. r = Inl e \<and> sock_closed w' = sock_closed w)
       \<or> (r = Inr (length (sock_closed w)) \<and> sock_closed w' = sock_closed w @ [False]
            \<and> failure = None)"
  using assms
  by (auto simp: buildSocket_def split: sum.splits option.splits prod.splits)


lemma start_one_worker:
  fixes w1 :: world and s i :: nat
  defines "w3 \<equiv> worker_start
      (w1\<lparr>worker_heap := worker_heap w1 @ [\<lparr>running = False, socket = s\<rparr>],
          lis := (lis w1)\<lparr>workers := (workers (lis w1))[i := Some (length (worker_heap w1))]\<rparr>\<rparr>)
      (length (worker_heap w1))"
  shows "worker_heap w3 = worker_heap w1 @ [\<lparr>running = True, socket = s\<rparr>]"
    "sock_closed w3 = sock_closed w1" "conn_chans w3 = conn_chans w1"
    "lis w3 = (lis w1)\<lparr>workers := (workers (lis w1))[i := Some (length (worker_heap w1))]\<rparr>"
  by (simp_all add: w3_def worker_start_def worker_isRunning_def worker_set_running_def)

lemma start_workers_failure:
  assumes "routes_ok w" and "default_open w"
    and "distinct js" and "\<forall>i\<in>set js. i < length (workers (lis w))"
    and "base \<le> length (worker_heap w)"
    and "loop_inv base js w"
    and "start_workers env failures js w = (w', r)" and "r \<noteq> Inr None"
  shows "(\<exists>e. r = Inr (Some (BuilderWorkerSocket e)))
       \<and> workers (lis w') = [] \<and> channels (lis w') = [] \<and> default_closed w'
       \<and> (\<forall>j. base \<le> j \<and> j < length (worker_heap w') \<longrightarrow> worker_stopped w' j)"
  using assms
proof (induction js arbitrary: w)
  case Nil
  then show ?case by simp
next
  case (Cons i js)
  obtain w1 rb where b: "buildSocket env (failures i) w = (w1, rb)"
    by (cases "buildSocket env (failures i) w")
  note fr = buildSocket_frame[OF b]
  note bs = buildSocket_sockets[OF b]
  have ok1: "routes_ok w1"
    using Cons.prems(1) routes_ok_cong[of w1 w] fr by simp
  have d1: "default_open w1"
    using Cons.prems(2) default_open_cong[of w1 w] fr by simp
  show ?case
  proof (cases rb)
    case (Inl e)
    with bs have sc: "sock_closed w1 = sock_closed w" by auto
    from Listener_Stop_ok[OF ok1 d1] obtain w2 where
      w2: "Listener_Stop w1 = (w2, None)" "workers (lis w2) = []" "channels (lis w2) = []"
        "worker_heap w2 = worker_heap (stop_workers (workers (lis w1)) w1)"
        "sock_closed w2 = sock_closed (stop_workers (workers (lis w1)) w1)"
        "default_closed w2"
      by blast
    from Cons.prems(7) b Inl w2(1) have r: "r = Inr (Some (BuilderWorkerSocket e))" and w': "w' = w2"
      by simp_all
    have "worker_stopped w2 j" if j: "base \<le> j" "j < length (worker_heap w2)" for j
    proof -
      from j(2) w2(4) fr have jl: "j < length (worker_heap w)" by simp
      with Cons.prems(6) j(1) obtain pos where
        v: "worker_valid w j" and pos: "pos < length (workers (lis w))" "workers (lis w) ! pos = Some j"
        unfolding loop_inv_def by blast
      from v fr sc have v1: "worker_valid w1 j" by (simp add: worker_valid_def)
      from pos fr have "Some j \<in> set (workers (lis w1))"
        by (metis nth_mem)
      from stop_workers_stops[OF this v1] w2(4,5) show ?thesis
        using worker_stopped_cong[of w2 "stop_workers (workers (lis w1)) w1" j] by simp
    qed
    with r w' w2 show ?thesis by simp
  next
    case (Inr s)
    with bs have s: "s = length (sock_closed w)" and sc: "sock_closed w1 = sock_closed w @ [False]"
      by auto
    define wid where "wid = length (worker_heap w1)"
    define w3 where "w3 = worker_start
      (w1\<lparr>worker_heap := worker_heap w1 @ [\<lparr>running = False, socket = s\<rparr>],
          lis := (lis w1)\<lparr>workers := (workers (lis w1))[i := Some (length (worker_heap w1))]\<rparr>\<rparr>)
      (length (worker_heap w1))"
    note w3 = start_one_worker[where ?w1.0=w1 and s=s and i=i, folded w3_def]
    have wid: "wid = length (worker_heap w)" using fr by (simp add: wid_def)
    from Cons.prems(7) b Inr have res: "start_workers env failures js w3 = (w', r)"
      by (simp add: Let_def w3_def)
    have ok3: "routes_ok w3"
      using ok1 routes_ok_cong[of w3 w1] w3 by simp
    have d3: "default_open w3"
      using d1 default_open_cong[of w3 w1] w3 by simp
    have dj: "distinct js" and inotin: "i \<notin> set js" using Cons.prems(3) by simp_all
    have il: "i < length (workers (lis w))" using Cons.prems(4) by simp
    have bound: "\<forall>i'\<in>set js. i' < length (workers (lis w3))"
      using Cons.prems(4) w3 fr by simp
    have base3: "base \<le> length (worker_heap w3)"
      using Cons.prems(5) w3 fr by simp
    have inv3: "loop_inv base js w3"
      unfolding loop_inv_def
    proof (intro allI impI)
      fix j assume j: "base \<le> j \<and> j < length (worker_heap w3)"
      show "worker_valid w3 j \<and> (\<exists>pos. pos < length (workers (lis w3)) \<and> pos \<notin> set js
              \<and> workers (lis w3) ! pos = Some j)"
      proof (cases "j < length (worker_heap w)")
        case True
        with Cons.prems(6) j obtain pos where
          v: "worker_valid w j" and pos: "pos < length (workers (lis w))" "pos \<notin> set (i # js)"
            "workers (lis w) ! pos = Some j"
          unfolding loop_inv_def by blast
        from v True have "worker_valid w3 j"
          using w3 fr sc by (simp add: worker_valid_def nth_append)
        moreover from pos have "pos < length (workers (lis w3))" "pos \<notin> set js"
          "workers (lis w3) ! pos = Some j"
          using w3 fr by simp_all
        ultimately show ?thesis by blast
      next
        case False
        with j w3 fr have jw: "j = length (worker_heap w)" by simp
        have "worker_valid w3 j"
          using jw w3 fr sc s by (simp add: worker_valid_def nth_append)
        moreover have "i < length (workers (lis w3))" "workers (lis w3) ! i = Some j"
          using il jw w3 fr by simp_all
        ultimately show ?thesis using inotin by blast
      qed
    qed
    from Cons.IH[OF ok3 d3 dj bound base3 inv3 res Cons.prems(8)] show ?thesis .
  qed
qed


lemma start_workers_fails:
  "k \<in> set js \<Longrightarrow> failures k \<noteq> None \<Longrightarrow> snd (start_workers env failures js w) \<noteq> Inr None"
proof (induction js arbitrary: w)
  case Nil
  then show ?case by simp
next
  case (Cons i js)
  obtain w1 rb where b: "buildSocket env (failures i) w = (w1, rb)"
    by (cases "buildSocket env (failures i) w")
  note bs = buildSocket_sockets[OF b]
  show ?case
  proof (cases rb)
    case (Inl e)
    with b show ?thesis
      by (simp split: prod.splits option.splits)
  next
    case (Inr s)
    with bs have "failures i = None" by auto
    with Cons.prems have "k \<in> set js" by auto
    from Cons.IH[OF this Cons.prems(2)] b Inr show ?thesis
      by (simp add: Let_def)
  qed
qed

lemma routes_ok_new_chan:
  assumes "routes_ok w" "channels (lis w') = channels (lis w)"
    "conn_chans w' = conn_chans w @ [c]" "defaultChannel (lis w') = Some (length (conn_chans w))"
    "\<not> is_closed c"
  shows "routes_ok w'" "default_open w'"
proof -
  have ro: "route_open w' p \<and> channel p < length (conn_chans w)" if "route_open w p" for p
    using that assms(3)
    by (auto simp: route_open_def chan_at_def nth_append split: option.splits if_splits)
  from assms(1) have all: "\<forall>kv\<in>set (channels (lis w)). proto (snd kv) = fst kv \<and> route_open w (snd kv)"
    by (simp add: routes_ok_def list_all_iff)
  with ro assms(1,2) show "routes_ok w'"
    by (simp add: routes_ok_def list_all_iff)
  from all ro have "length (conn_chans w) \<notin> (\<lambda>kv. channel (snd kv)) ` set (channels (lis w))"
    by fastforce
  with assms show "default_open w'"
    by (simp add: default_open_def chan_at_def)
qed

text \<open>
  C4. Let the registry be as the package keeps it and the worker count not negative.
  Whenever \<^verbatim>\<open>Start\<close> does not return nil, that is, whenever building the socket of
  one of its workers failed, it returns the error of that failure wrapped as "builder
  worker socket", it does not panic, and it has run \<^verbatim>\<open>Stop\<close>: the worker slice and
  the registry are empty, the default queue is closed, and every worker made by this
  call is stopped, its flag false and its socket closed. And a system call that fails
  for one of the workers does make \<^verbatim>\<open>Start\<close> return an error.
\<close>

theorem Start_failure_full_stop:
  assumes ok: "routes_ok w" and n: "0 \<le> Listeners (lis w)"
    and res: "Listener_Start env failures w = (w', r)"
  shows "(r \<noteq> Inr None \<longrightarrow>
            (\<exists>e. r = Inr (Some (BuilderWorkerSocket e)))
            \<and> workers (lis w') = [] \<and> channels (lis w') = [] \<and> default_closed w'
            \<and> (\<forall>j. length (worker_heap w) \<le> j \<and> j < length (worker_heap w')
                   \<longrightarrow> worker_stopped w' j))
       \<and> ((\<exists>k. k < (if Listeners (lis w) = 0 then 1 else nat (Listeners (lis w)))
               \<and> failures k \<noteq> None) \<longrightarrow> r \<noteq> Inr None)"
proof -
  define n where "n = (if Listeners (lis w) = 0 then 1 else Listeners (lis w))"
  define w0 where "w0 = w\<lparr>lis := (lis w)\<lparr>Listeners := n\<rparr>\<rparr>"
  define w1 where "w1 = w0\<lparr>lis := (lis w0)\<lparr>workers := replicate (nat n) None,
                                   defaultChannel := Some (length (conn_chans w0)),
                                   errors := Some (length (err_chans w0))\<rparr>,
                 conn_chans := conn_chans w0 @ [make_chan 1],
                 err_chans := err_chans w0 @ [make_chan 1]\<rparr>"
  have npos: "\<not> n < 0" using n by (simp add: n_def)
  with res have sw: "start_workers env failures [0..<nat n] w1 = (w', r)"
    by (simp add: Listener_Start_def Let_def n_def w0_def w1_def)
  have "routes_ok w1" "default_open w1"
    using routes_ok_new_chan[of w w1 "make_chan 1"] ok
    by (simp_all add: w1_def w0_def make_chan_def)
  moreover have "distinct [0..<nat n]" "\<forall>i\<in>set [0..<nat n]. i < length (workers (lis w1))"
    by (simp_all add: w1_def)
  moreover have "length (worker_heap w) \<le> length (worker_heap w1)"
    "loop_inv (length (worker_heap w)) [0..<nat n] w1"
    by (simp_all add: w1_def w0_def loop_inv_def)
  ultimately have a: "r \<noteq> Inr None \<Longrightarrow>
            (\<exists>e. r = Inr (Some (BuilderWorkerSocket e)))
            \<and> workers (lis w') = [] \<and> channels (lis w') = [] \<and> default_closed w'
            \<and> (\<forall>j. length (worker_heap w) \<le> j \<and> j < length (worker_heap w')
                   \<longrightarrow> worker_stopped w' j)"
    using start_workers_failure[OF _ _ _ _ _ _ sw] by blast
  have b: "r \<noteq> Inr None" if "k < (if Listeners (lis w) = 0 then 1 else nat (Listeners (lis w)))"
    "failures k \<noteq> None" for k
  proof -
    from that(1) have "k \<in> set [0..<nat n]" by (auto simp: n_def)
    from start_workers_fails[where k=k and js="[0..<nat n]" and failures=failures and env=env
        and w=w1] this that(2) sw
    show ?thesis by simp
  qed
  from a b show ?thesis by blast
qed

theorem Start_failure_full_stop_witness:
  "routes_ok three_workers_world
   \<and> 0 \<le> Listeners (lis three_workers_world)
   \<and> second_bind_fails 1 \<noteq> None
   \<and> snd (Listener_Start test_env second_bind_fails three_workers_world)
       = Inr (Some (BuilderWorkerSocket (BindSocket (External ''address already in use''))))
   \<and> workers (lis (fst (Listener_Start test_env second_bind_fails three_workers_world))) = []
   \<and> length (worker_heap three_workers_world) = 0
   \<and> length (worker_heap (fst (Listener_Start test_env second_bind_fails three_workers_world))) = 1
   \<and> worker_stopped (fst (Listener_Start test_env second_bind_fails three_workers_world)) 0"
proof -
  have ok: "routes_ok three_workers_world" by code_simp
  have n: "0 \<le> Listeners (lis three_workers_world)" by code_simp
  have f: "second_bind_fails 1 \<noteq> None" by (simp add: second_bind_fails_def)
  have r: "snd (Listener_Start test_env second_bind_fails three_workers_world)
       = Inr (Some (BuilderWorkerSocket (BindSocket (External ''address already in use''))))"
    by code_simp
  have l: "length (worker_heap three_workers_world) = 0"
    "length (worker_heap (fst (Listener_Start test_env second_bind_fails three_workers_world))) = 1"
    by code_simp+
  note t = Start_failure_full_stop[OF ok n surjective_pairing, of test_env second_bind_fails]
  from t r l ok n f show ?thesis by simp
qed

section \<open>Stop after Stop, for every listener\<close>

text \<open>
  The second of two calls of \<^verbatim>\<open>Stop\<close> panics not only in the test suite's run: after
  any \<^verbatim>\<open>Stop\<close> that returned, the default channel is closed and still referred to,
  and the next \<^verbatim>\<open>Stop\<close> closes it again.
\<close>

lemma Stop_twice_panics:
  assumes "Listener_Stop w = (w', None)"
  shows "snd (Listener_Stop w') = Some CloseOfClosedChannel"
proof -
  from Listener_Stop_closes_default[OF assms] obtain c where
    c: "chan_at (conn_chans w') (defaultChannel (lis w)) = Some c" "is_closed c"
    by blast
  then obtain d where d: "defaultChannel (lis w) = Some d"
    by (cases "defaultChannel (lis w)") simp_all
  from Listener_Stop_frame[of w] assms have d': "defaultChannel (lis w') = Some d"
    using d by (simp add: kept_fields_def)
  obtain w2 r where sr:
    "stop_routes (map fst (channels (lis w))) (stop_workers (workers (lis w)) w) = (w2, r)"
    by (cases "stop_routes (map fst (channels (lis w))) (stop_workers (workers (lis w)) w)")
  from assms[unfolded Listener_Stop_unfold[OF sr]]
  have e: "workers (lis w') = []" "channels (lis w') = []"
    by (auto split: option.splits sum.splits)
  then have sr': "stop_routes (map fst (channels (lis w'))) (stop_workers (workers (lis w')) w')
      = (w', None)"
    by simp
  from drain_default_keeps[OF d'] c d obtain c' where
    c': "chan_at (conn_chans (drain_default w')) (Some d) = Some c'" "is_closed c'"
    by auto
  then have "chan_close (conn_chans (drain_default w')) (Some d) = Inl CloseOfClosedChannel"
    by (simp add: chan_close_def)
  then show ?thesis
    unfolding Listener_Stop_unfold[OF sr'] using d' by simp
qed

section \<open>The routing decision, in every world\<close>

lemma chan_send_cases:
  "chan_send h r v =
     (case chan_at h r of
        None \<Rightarrow> Blocks
      | Some c \<Rightarrow>
          if is_closed c then Panics SendOnClosedChannel
          else if length (buf c) < capacity c
            then Returns (h[the r := c\<lparr>buf := buf c @ [v]\<rparr>])
          else Blocks)"
  by (cases r) (auto simp: chan_send_def split: option.splits)

text \<open>
  C3. For every connection whose handshake succeeds, the queue it is handed to is
  that of the route registered under the negotiated name if there is such a route and
  the negotiation was mutual, and the default queue in every other case. The hand-over
  is the send of the connection on that queue and on no other: every other channel,
  the listener, the error channels and the closed connections are as before; the call
  returns exactly when that queue is open with a free slot, and the connection is
  then the last of that queue; otherwise nothing changes, and the call waits (queue
  full, or nil) or panics (queue closed). A connection that was in no queue is, after
  the call has returned, in that queue and in no other.
\<close>

theorem routing_decision:
  fixes w :: world and conn :: nat and name :: string and mutual :: bool
  defines "target \<equiv>
     (case map_of (channels (lis w)) name of
        Some p \<Rightarrow> if mutual then Some (channel p) else defaultChannel (lis w)
      | None \<Rightarrow> defaultChannel (lis w))"
  defines "w' \<equiv> fst (connectionReceived w conn (HandshakeDone name mutual))"
  defines "r \<equiv> snd (connectionReceived w conn (HandshakeDone name mutual))"
  shows "lis w' = lis w \<and> err_chans w' = err_chans w \<and> conn_closed w' = conn_closed w
     \<and> length (conn_chans w') = length (conn_chans w)
     \<and> (\<forall>q. Some q \<noteq> target \<longrightarrow> chan_at (conn_chans w') (Some q) = chan_at (conn_chans w) (Some q))
     \<and> (r = Returns () \<longleftrightarrow> can_take (conn_chans w) target)
     \<and> (\<forall>c. chan_at (conn_chans w) target = Some c \<and> can_take (conn_chans w) target \<longrightarrow>
           chan_at (conn_chans w') target = Some (c\<lparr>buf := buf c @ [conn]\<rparr>))
     \<and> (\<not> can_take (conn_chans w) target \<longrightarrow>
           conn_chans w' = conn_chans w
           \<and> r = (case chan_at (conn_chans w) target of
                    None \<Rightarrow> Blocks
                  | Some c \<Rightarrow> if is_closed c then Panics SendOnClosedChannel else Blocks))
     \<and> ((\<forall>q. \<not> queued w q conn) \<and> r = Returns () \<longrightarrow>
           (\<forall>q. queued w' q conn \<longleftrightarrow> Some q = target))"
proof -
  have cr: "connectionReceived w conn (HandshakeDone name mutual) =
      (case chan_send (conn_chans w) target conn of
         Returns h \<Rightarrow> (w\<lparr>conn_chans := h\<rparr>, Returns ())
       | Panics e \<Rightarrow> (w, Panics e)
       | Blocks \<Rightarrow> (w, Blocks))"
    by (simp add: connectionReceived_def target_def Let_def)
  show ?thesis
  proof (cases "chan_at (conn_chans w) target")
    case None
    then show ?thesis
      unfolding w'_def r_def cr chan_send_cases by (simp add: can_take_def)
  next
    case (Some c)
    then obtain t where t: "target = Some t" "t < length (conn_chans w)" "conn_chans w ! t = c"
      by (cases target) (auto simp: chan_at_def split: if_splits)
    show ?thesis
    proof (cases "\<not> is_closed c \<and> length (buf c) < capacity c")
      case False
      with Some show ?thesis
        unfolding w'_def r_def cr chan_send_cases by (auto simp: can_take_def)
    next
      case True
      with Some t show ?thesis
        unfolding w'_def r_def cr chan_send_cases
        by (auto simp: can_take_def chan_at_def queued_def nth_list_update)
    qed
  qed
qed

lemma routed_world_eq:
  "routed_world = started_world\<lparr>conn_chans := [\<lparr>buf = [7], capacity = 1, is_closed = False\<rparr>, make_chan 1]\<rparr>"
  unfolding started_world_eq by code_simp

theorem routing_decision_witness:
  "snd (connectionReceived started_world 7 (HandshakeDone ''h2'' True)) = Returns ()
   \<and> chan_at (conn_chans (fst (connectionReceived started_world 7 (HandshakeDone ''h2'' True))))
        (Some (channel h2_route)) = Some \<lparr>buf = [7], capacity = 1, is_closed = False\<rparr>
   \<and> chan_at (conn_chans (fst (connectionReceived started_world 7 (HandshakeDone ''h2'' True))))
        (defaultChannel (lis started_world)) = Some (make_chan 1)
   \<and> snd (connectionReceived started_world 7 (HandshakeDone ''h2'' False)) = Returns ()
   \<and> chan_at (conn_chans (fst (connectionReceived started_world 7 (HandshakeDone ''h2'' False))))
        (defaultChannel (lis started_world)) = Some \<lparr>buf = [7], capacity = 1, is_closed = False\<rparr>
   \<and> snd (connectionReceived routed_world 8 (HandshakeDone ''h2'' True)) = Blocks
   \<and> conn_chans (fst (connectionReceived routed_world 8 (HandshakeDone ''h2'' True)))
        = conn_chans routed_world
   \<and> snd (connectionReceived stopped_world 8 (HandshakeDone ''h3'' True))
        = Panics SendOnClosedChannel"
proof -
  have s: "map_of (channels (lis started_world)) ''h2'' = Some h2_route"
    "defaultChannel (lis started_world) = Some 1" "channel h2_route = 0"
    "conn_chans started_world = [make_chan 1, make_chan 1]"
    by (simp_all add: started_world_eq h2_route_def)
  have r: "map_of (channels (lis routed_world)) ''h2'' = Some h2_route"
    "conn_chans routed_world = [\<lparr>buf = [7], capacity = 1, is_closed = False\<rparr>, make_chan 1]"
    by (simp_all add: routed_world_eq started_world_eq h2_route_def)
  have t: "map_of (channels (lis stopped_world)) ''h3'' = None"
    "defaultChannel (lis stopped_world) = Some 1"
    "conn_chans stopped_world = [\<lparr>buf = [], capacity = 1, is_closed = True\<rparr>,
                    \<lparr>buf = [], capacity = 1, is_closed = True\<rparr>]"
    by (simp_all add: stopped_world_eq)
  have cs: "can_take (conn_chans started_world) (Some 0)"
    "can_take (conn_chans started_world) (Some 1)"
    "chan_at (conn_chans started_world) (Some 0) = Some (make_chan 1)"
    "chan_at (conn_chans started_world) (Some 1) = Some (make_chan 1)"
    by (simp_all add: s can_take_def chan_at_def make_chan_def)
  have cr: "\<not> can_take (conn_chans routed_world) (Some 0)"
    "chan_at (conn_chans routed_world) (Some 0) = Some \<lparr>buf = [7], capacity = 1, is_closed = False\<rparr>"
    by (simp_all add: r can_take_def chan_at_def)
  have ct: "\<not> can_take (conn_chans stopped_world) (Some 1)"
    "chan_at (conn_chans stopped_world) (Some 1) = Some \<lparr>buf = [], capacity = 1, is_closed = True\<rparr>"
    by (simp_all add: t can_take_def chan_at_def)
  note a = routing_decision[where w=started_world and name="''h2''" and mutual=True and conn=7]
  note b = routing_decision[where w=started_world and name="''h2''" and mutual=False and conn=7]
  note c = routing_decision[where w=routed_world and name="''h2''" and mutual=True and conn=8]
  note d = routing_decision[where w=stopped_world and name="''h3''" and mutual=True and conn=8]
  have a1: "snd (connectionReceived started_world 7 (HandshakeDone ''h2'' True)) = Returns ()"
    using a[THEN conjunct2, THEN conjunct2, THEN conjunct2, THEN conjunct2, THEN conjunct2, THEN conjunct1] cs by (simp add: s(1,3))
  have a2: "chan_at (conn_chans (fst (connectionReceived started_world 7 (HandshakeDone ''h2'' True))))
        (Some (channel h2_route)) = Some \<lparr>buf = [7], capacity = 1, is_closed = False\<rparr>"
    using a[THEN conjunct2, THEN conjunct2, THEN conjunct2, THEN conjunct2, THEN conjunct2, THEN conjunct2, THEN conjunct1, rule_format, of "make_chan 1"] cs
    by (simp add: s(1,3) make_chan_def)
  have a3: "chan_at (conn_chans (fst (connectionReceived started_world 7 (HandshakeDone ''h2'' True))))
        (defaultChannel (lis started_world)) = Some (make_chan 1)"
    using a[THEN conjunct2, THEN conjunct2, THEN conjunct2, THEN conjunct2, THEN conjunct1, rule_format, of 1] cs by (simp add: s(1,2,3))
  have b1: "snd (connectionReceived started_world 7 (HandshakeDone ''h2'' False)) = Returns ()"
    using b[THEN conjunct2, THEN conjunct2, THEN conjunct2, THEN conjunct2, THEN conjunct2, THEN conjunct1] cs by (simp add: s(1,2))
  have b2: "chan_at (conn_chans (fst (connectionReceived started_world 7 (HandshakeDone ''h2'' False))))
        (defaultChannel (lis started_world)) = Some \<lparr>buf = [7], capacity = 1, is_closed = False\<rparr>"
    using b[THEN conjunct2, THEN conjunct2, THEN conjunct2, THEN conjunct2, THEN conjunct2, THEN conjunct2, THEN conjunct1, rule_format, of "make_chan 1"] cs
    by (simp add: s(1,2) make_chan_def)
  have c1: "snd (connectionReceived routed_world 8 (HandshakeDone ''h2'' True)) = Blocks
   \<and> conn_chans (fst (connectionReceived routed_world 8 (HandshakeDone ''h2'' True)))
        = conn_chans routed_world"
    using c[THEN conjunct2, THEN conjunct2, THEN conjunct2, THEN conjunct2, THEN conjunct2, THEN conjunct2, THEN conjunct2, THEN conjunct1] cr by (simp add: r(1) s(3))
  have d1: "snd (connectionReceived stopped_world 8 (HandshakeDone ''h3'' True))
        = Panics SendOnClosedChannel"
    using d[THEN conjunct2, THEN conjunct2, THEN conjunct2, THEN conjunct2, THEN conjunct2, THEN conjunct2, THEN conjunct2, THEN conjunct1] ct by (simp add: t(1,2))
  from a1 a2 a3 b1 b2 c1 d1 show ?thesis by simp
qed

end
